theory Spec2Isabelle
  imports Main "HOL-Library.Sublist"
begin

section \<open>Go library functions used by package agi\<close>

text \<open>
  Go strings are byte sequences; they are modelled by \<open>string\<close> (a list of 8-bit
  characters). Only the library behaviour that \<open>agi.go\<close> relies on is modelled.
\<close>

subsection \<open>Package strings\<close>

text \<open>\<open>strings.Join(elems, sep)\<close>.\<close>

fun Join :: "string list \<Rightarrow> string \<Rightarrow> string" where
  "Join [] sep = []"
| "Join [x] sep = x"
| "Join (x # y # ys) sep = x @ sep @ Join (y # ys) sep"

text \<open>\<open>strings.HasPrefix\<close>, \<open>strings.TrimPrefix\<close>, \<open>strings.TrimSuffix\<close>.\<close>

definition HasPrefix :: "string \<Rightarrow> string \<Rightarrow> bool" where
  "HasPrefix s p = prefix p s"

definition TrimPrefix :: "string \<Rightarrow> string \<Rightarrow> string" where
  "TrimPrefix s p = (if prefix p s then drop (length p) s else s)"

definition TrimSuffix :: "string \<Rightarrow> string \<Rightarrow> string" where
  "TrimSuffix s p = (if suffix p s then take (length s - length p) s else s)"

text \<open>
  \<open>strings.Index(s, sep)\<close>: the offset of the first occurrence of \<open>sep\<close> in \<open>s\<close>
  (Go returns -1 where the model returns \<open>None\<close>).
\<close>

fun Index :: "string \<Rightarrow> string \<Rightarrow> nat option" where
  "Index [] sep = (if sep = [] then Some 0 else None)"
| "Index (c # cs) sep =
     (if prefix sep (c # cs) then Some 0 else map_option Suc (Index cs sep))"

text \<open>
  \<open>strings.SplitN(s, sep, n)\<close> for a non-empty separator and \<open>n \<ge> 0\<close>: at most
  \<open>n\<close> pieces, the last one being the unsplit remainder.
\<close>

fun SplitN :: "string \<Rightarrow> string \<Rightarrow> nat \<Rightarrow> string list" where
  "SplitN s sep 0 = []"
| "SplitN s sep (Suc 0) = [s]"
| "SplitN s sep (Suc (Suc n)) =
     (case Index s sep of
        None \<Rightarrow> [s]
      | Some i \<Rightarrow> take i s # SplitN (drop (i + length sep) s) sep (Suc n))"

text \<open>
  \<open>strings.TrimSpace\<close> removes leading and trailing white space as defined by Unicode
  (\<open>unicode.IsSpace\<close>). On the bytes of a string these are the UTF-8 encodings below:
  tab, line feed, vertical tab, form feed, carriage return, space, U+0085, U+00A0,
  U+1680, U+2000 to U+200A, U+2028, U+2029, U+202F, U+205F and U+3000. A byte
  sequence that does not decode to one of these code points stops the trimming.
\<close>

definition white_space :: "string list" where
  "white_space =
    [[CHR 0x09], [CHR 0x0A], [CHR 0x0B], [CHR 0x0C], [CHR 0x0D], [CHR 0x20],
     [CHR 0xC2, CHR 0x85], [CHR 0xC2, CHR 0xA0],
     [CHR 0xE1, CHR 0x9A, CHR 0x80],
     [CHR 0xE2, CHR 0x80, CHR 0x80], [CHR 0xE2, CHR 0x80, CHR 0x81],
     [CHR 0xE2, CHR 0x80, CHR 0x82], [CHR 0xE2, CHR 0x80, CHR 0x83],
     [CHR 0xE2, CHR 0x80, CHR 0x84], [CHR 0xE2, CHR 0x80, CHR 0x85],
     [CHR 0xE2, CHR 0x80, CHR 0x86], [CHR 0xE2, CHR 0x80, CHR 0x87],
     [CHR 0xE2, CHR 0x80, CHR 0x88], [CHR 0xE2, CHR 0x80, CHR 0x89],
     [CHR 0xE2, CHR 0x80, CHR 0x8A],
     [CHR 0xE2, CHR 0x80, CHR 0xA8], [CHR 0xE2, CHR 0x80, CHR 0xA9],
     [CHR 0xE2, CHR 0x80, CHR 0xAF],
     [CHR 0xE2, CHR 0x81, CHR 0x9F],
     [CHR 0xE3, CHR 0x80, CHR 0x80]]"

text \<open>
  \<open>strip ws s\<close> removes from the front of \<open>s\<close>, repeatedly, any of the byte
  sequences \<open>ws\<close>.
\<close>

function strip :: "string list \<Rightarrow> string \<Rightarrow> string" where
  "strip ws s =
     (case find (\<lambda>x. x \<noteq> [] \<and> prefix x s) ws of
        None \<Rightarrow> s
      | Some x \<Rightarrow> strip ws (drop (length x) s))"
  by pat_completeness auto
termination
proof (relation "measure (\<lambda>(ws, s). length s)")
  show "wf (measure (\<lambda>(ws, s). length s))" by simp
next
  fix ws :: "string list" and s x :: string
  assume "find (\<lambda>x. x \<noteq> [] \<and> prefix x s) ws = Some x"
  then have "x \<noteq> []" and "prefix x s"
    by (auto simp: find_Some_iff)
  then have "s \<noteq> []" by auto
  with \<open>x \<noteq> []\<close> show "((ws, drop (length x) s), (ws, s)) \<in> measure (\<lambda>(ws, s). length s)"
    by simp
qed

declare strip.simps [simp del]

definition TrimLeftSpace :: "string \<Rightarrow> string" where
  "TrimLeftSpace s = strip white_space s"

definition TrimRightSpace :: "string \<Rightarrow> string" where
  "TrimRightSpace s = rev (strip (map rev white_space) (rev s))"

definition TrimSpace :: "string \<Rightarrow> string" where
  "TrimSpace s = TrimRightSpace (TrimLeftSpace s)"

subsection \<open>Package strconv\<close>

text \<open>
  \<open>strconv.Atoi\<close> on a platform whose \<open>int\<close> has 64 bits. Go returns a value and
  an error; the error is \<open>ErrSyntax\<close> or \<open>ErrRange\<close>. Go's machine integers are
  modelled by \<open>int\<close>, with the bounds that the library checks written out.
\<close>

datatype NumError = ErrSyntax | ErrRange

definition intSize :: nat where
  "intSize = 64"

definition is_digit :: "char \<Rightarrow> bool" where
  "is_digit c = (let n = (of_char c :: int) in 48 \<le> n \<and> n \<le> 57)"

definition digit_val :: "char \<Rightarrow> int" where
  "digit_val c = of_char c - 48"

text \<open>
  The loop of \<open>strconv.ParseUint(s, 10, 64)\<close>: \<open>n\<close> is the value read so far. A
  byte that is not a decimal digit is a syntax error; a value that no longer fits 64
  bits is a range error, reported with the largest value.
\<close>

fun ParseUint_loop :: "string \<Rightarrow> int \<Rightarrow> int \<times> NumError option" where
  "ParseUint_loop [] n = (n, None)"
| "ParseUint_loop (c # cs) n =
     (if \<not> is_digit c then (0, Some ErrSyntax)
      else if n \<ge> (2 ^ 64 - 1) div 10 + 1 then (2 ^ 64 - 1, Some ErrRange)
      else if n * 10 + digit_val c > 2 ^ 64 - 1 then (2 ^ 64 - 1, Some ErrRange)
      else ParseUint_loop cs (n * 10 + digit_val c))"

definition ParseUint :: "string \<Rightarrow> int \<times> NumError option" where
  "ParseUint s = (if s = [] then (0, Some ErrSyntax) else ParseUint_loop s 0)"

definition Atoi :: "string \<Rightarrow> int \<times> NumError option" where
  "Atoi s =
     (if s = [] then (0, Some ErrSyntax)
      else
        let neg = (hd s = CHR ''-'');
            body = (if hd s = CHR ''+'' \<or> hd s = CHR ''-'' then tl s else s);
            cutoff = (2 :: int) ^ (intSize - 1)
        in case ParseUint body of
             (un, Some ErrSyntax) \<Rightarrow> (0, Some ErrSyntax)
           | (un, _) \<Rightarrow>
               if \<not> neg \<and> un \<ge> cutoff then (cutoff - 1, Some ErrRange)
               else if neg \<and> un > cutoff then (- cutoff, Some ErrRange)
               else (if neg then - un else un, None))"

subsection \<open>Package regexp\<close>

text \<open>
  The fragment of Go's regular expressions that the package uses: a byte from a class,
  a literal, concatenation, the greedy operators \<open>?\<close> and \<open>*\<close> (the latter on a
  class), and capturing groups, which are numbered by their opening parenthesis.

  \<open>run re s\<close> lists every way in which \<open>re\<close> matches a prefix of \<open>s\<close>, as the
  texts captured by the groups of \<open>re\<close> and the rest of \<open>s\<close>, in the order in which
  a backtracking matcher tries them: Go's leftmost-first semantics selects the first one
  in this order that completes the whole pattern.
\<close>

datatype regex =
    Class "char \<Rightarrow> bool"
  | Lit string
  | Cat regex regex
  | Opt regex
  | StarC "char \<Rightarrow> bool"
  | Grp regex

fun ngroups :: "regex \<Rightarrow> nat" where
  "ngroups (Class p) = 0"
| "ngroups (Lit l) = 0"
| "ngroups (Cat a b) = ngroups a + ngroups b"
| "ngroups (Opt a) = ngroups a"
| "ngroups (StarC p) = 0"
| "ngroups (Grp a) = Suc (ngroups a)"

fun run :: "regex \<Rightarrow> string \<Rightarrow> (string option list \<times> string) list" where
  "run (Class p) s = (case s of [] \<Rightarrow> [] | c # cs \<Rightarrow> if p c then [([], cs)] else [])"
| "run (Lit l) s = (if prefix l s then [([], drop (length l) s)] else [])"
| "run (Cat a b) s =
     concat (map (\<lambda>(ca, s1). map (\<lambda>(cb, s2). (ca @ cb, s2)) (run b s1)) (run a s))"
| "run (Opt a) s = run a s @ [(replicate (ngroups a) None, s)]"
| "run (StarC p) s =
     (case s of
        [] \<Rightarrow> [([], [])]
      | c # cs \<Rightarrow> if p c then run (StarC p) cs @ [([], s)] else [([], s)])"
| "run (Grp a) s =
     map (\<lambda>(ca, s1). (Some (take (length s - length s1) s) # ca, s1)) (run a s)"

text \<open>
  \<open>FindStringSubmatch\<close> for a pattern \<open>^re$\<close>: without the \<open>m\<close> flag the two anchors
  tie the match to the whole text. The result is the text followed by the text of each
  group, empty for a group that did not take part in the match; Go's \<open>nil\<close> is
  \<open>None\<close>.
\<close>

definition FindStringSubmatch :: "regex \<Rightarrow> string \<Rightarrow> string list option" where
  "FindStringSubmatch re s =
     (case find (\<lambda>(caps, rest). rest = []) (run re s) of
        None \<Rightarrow> None
      | Some (caps, rest) \<Rightarrow>
          Some (s # map (\<lambda>c. case c of None \<Rightarrow> [] | Some m \<Rightarrow> m) caps))"

text \<open>
  The classes of the pattern: \<open>\d\<close> is \<open>[0-9]\<close> (\<open>is_digit\<close> above), \<open>\s\<close> is
  \<open>[\t\n\f\r ]\<close>, \<open>[[:alnum:]]\<close> is \<open>[0-9A-Za-z]\<close>, and \<open>.\<close> is anything but a
  line feed. (\<open>.\<close> matches one code point, or one byte of invalid UTF-8; as \<open>.*\<close> is
  followed by \<open>$\<close> here, matching bytes gives the same result.)
\<close>

definition is_space :: "char \<Rightarrow> bool" where
  "is_space c =
     (c = CHR 0x09 \<or> c = CHR 0x0A \<or> c = CHR 0x0C \<or> c = CHR 0x0D \<or> c = CHR 0x20)"

definition is_alnum :: "char \<Rightarrow> bool" where
  "is_alnum c =
     (let n = (of_char c :: int)
      in (48 \<le> n \<and> n \<le> 57) \<or> (65 \<le> n \<and> n \<le> 90) \<or> (97 \<le> n \<and> n \<le> 122))"

definition not_newline :: "char \<Rightarrow> bool" where
  "not_newline c = (c \<noteq> CHR 0x0A)"

subsection \<open>Packages io and bufio\<close>

text \<open>
  An \<open>io.Reader\<close> is modelled by the data that it will deliver, in the pieces in which
  the data arrives. \<open>Read(p)\<close> returns the next piece, or the first \<open>len(p)\<close> bytes
  of it when the piece is longer; an empty piece is a \<open>Read\<close> that returns neither data
  nor an error; when nothing is left \<open>Read\<close> returns an error (\<open>io.EOF\<close> or another:
  the scanner treats them alike). The result is the data, whether there is an error, and
  the reader afterwards.
\<close>

fun Read :: "string list \<Rightarrow> int \<Rightarrow> string \<times> bool \<times> string list" where
  "Read [] n = ([], True, [])"
| "Read (c # cs) n =
     (if int (length c) \<le> n then (c, False, cs)
      else (take (nat n) c, False, drop (nat n) c # cs))"

text \<open>
  \<open>bufio.ScanLines\<close>, the default split function of a \<open>bufio.Scanner\<close>: the number of
  bytes to advance and the token, if there is one.
\<close>

definition dropCR :: "string \<Rightarrow> string" where
  "dropCR d = (if d \<noteq> [] \<and> last d = CHR 0x0D then butlast d else d)"

definition ScanLines :: "string \<Rightarrow> bool \<Rightarrow> nat \<times> string option" where
  "ScanLines d atEOF =
     (if atEOF \<and> d = [] then (0, None)
      else if CHR 0x0A \<in> set d
        then (let i = length (takeWhile (\<lambda>c. c \<noteq> CHR 0x0A) d)
              in (i + 1, Some (dropCR (take i d))))
      else if atEOF then (length d, Some (dropCR d))
      else (0, None))"

text \<open>
  A \<open>bufio.Scanner\<close>: its reader, the length of its buffer, the offset \<open>start\<close>, the
  data \<open>buf[start:end]\<close> that it has read and not yet handed out, and whether an error
  has been met. What the scanner has read is gone from the reader: when the scanner is
  dropped, the data that it still holds is lost.
\<close>

record Scanner =
  sc_r :: "string list"
  sc_buf :: int
  sc_start :: int
  sc_data :: string
  sc_err :: bool

definition startBufSize :: int where
  "startBufSize = 4096"

definition MaxScanTokenSize :: int where
  "MaxScanTokenSize = 64 * 1024"

definition maxConsecutiveEmptyReads :: nat where
  "maxConsecutiveEmptyReads = 100"

definition NewScanner :: "string list \<Rightarrow> Scanner" where
  "NewScanner rd = \<lparr>sc_r = rd, sc_buf = 0, sc_start = 0, sc_data = [], sc_err = False\<rparr>"

text \<open>
  The parts of \<open>Scan\<close>. \<open>fill\<close> is the loop that reads until some data or an error
  arrives, giving up after 100 empty reads. \<open>take_token\<close> offers the data held to the
  split function. \<open>make_room\<close> shifts the data to the front of the buffer and doubles a
  full buffer, up to the largest token size, beyond which it sets the error.
  \<open>read_input\<close> reads into the free part of the buffer.
\<close>

function fill :: "string list \<Rightarrow> int \<Rightarrow> nat \<Rightarrow> string \<times> bool \<times> string list" where
  "fill rd n loop =
     (case Read rd n of
        (bs, e, rd') \<Rightarrow>
          if e then (bs, True, rd')
          else if bs \<noteq> [] then (bs, False, rd')
          else if loop + 1 > maxConsecutiveEmptyReads then ([], True, rd')
          else fill rd' n (loop + 1))"
  by pat_completeness auto
termination
  by (relation "measure (\<lambda>(rd, n, loop). maxConsecutiveEmptyReads - loop)") auto

declare fill.simps [simp del]

definition take_token :: "Scanner \<Rightarrow> string option \<times> Scanner" where
  "take_token s =
     (if sc_data s \<noteq> [] \<or> sc_err s
      then (case ScanLines (sc_data s) (sc_err s) of
              (advance, token) \<Rightarrow>
                (token, s\<lparr>sc_start := sc_start s + int advance,
                          sc_data := drop advance (sc_data s)\<rparr>))
      else (None, s))"

definition make_room :: "Scanner \<Rightarrow> Scanner" where
  "make_room s =
     (let s1 = (if sc_start s > 0 \<and>
                   (sc_start s + int (length (sc_data s)) = sc_buf s \<or>
                    sc_start s > sc_buf s div 2)
                then s\<lparr>sc_start := 0\<rparr> else s)
      in if sc_start s1 + int (length (sc_data s1)) = sc_buf s1
         then (if sc_buf s1 \<ge> MaxScanTokenSize then s1\<lparr>sc_err := True\<rparr>
               else s1\<lparr>sc_buf := min (if sc_buf s1 * 2 = 0 then startBufSize
                                        else sc_buf s1 * 2) MaxScanTokenSize,
                        sc_start := 0\<rparr>)
         else s1)"

definition read_input :: "Scanner \<Rightarrow> Scanner" where
  "read_input s =
     (case fill (sc_r s) (sc_buf s - (sc_start s + int (length (sc_data s)))) 0 of
        (bs, e, rd') \<Rightarrow> s\<lparr>sc_r := rd', sc_data := sc_data s @ bs, sc_err := e\<rparr>)"

text \<open>
  \<open>Scan\<close>: the token, or \<open>None\<close> where Go returns false, and the scanner afterwards.
\<close>

function Scan :: "Scanner \<Rightarrow> string option \<times> Scanner" where
  "Scan s =
     (case take_token s of
        (Some t, s1) \<Rightarrow> (Some t, s1)
      | (None, s1) \<Rightarrow>
          if sc_err s1 then (None, s1\<lparr>sc_start := 0, sc_data := []\<rparr>)
          else
            let s2 = make_room s1
            in if sc_err s2 then (None, s2) else Scan (read_input s2))"
  by pat_completeness auto

section \<open>Package agi\<close>

subsection \<open>Data\<close>

text \<open>
  The errors that \<open>Command\<close> stores in a \<open>Response\<close>, one constructor for each
  message that the source builds, with the texts the message is built from.
\<close>

datatype agi_error =
    SendFailed string
  | ParseFailed string
  | StatusCodeFailed NumError string
  | ResultCodeFailed NumError string
  | Timeout
  | Non200 string

record Response =
  Error :: "agi_error option"
  Status :: int
  Result :: int
  ResultString :: string
  Value :: string

text \<open>
  An \<open>io.Writer\<close>: \<open>fails\<close> tells for which data \<open>Write\<close> returns an error (and
  which), \<open>sink\<close> collects the data written.
\<close>

record Writer =
  fails :: "string \<Rightarrow> string option"
  sink :: string

definition Write :: "Writer \<Rightarrow> string \<Rightarrow> Writer \<times> string option" where
  "Write wr b =
     (case fails wr b of
        Some e \<Rightarrow> (wr, Some e)
      | None \<Rightarrow> (wr\<lparr>sink := sink wr @ b\<rparr>, None))"

text \<open>
  The session. \<open>r\<close> is the reader, as above: the data still to be delivered. The
  mutex is not modelled: the model is sequential.
\<close>

record AGI =
  Variables :: "string \<rightharpoonup> string"
  r :: "string list"
  eagi :: "string list option"
  w :: Writer
  conn :: "nat option"

definition responseRegex :: regex where
  "responseRegex =
     Cat (Grp (Cat (Class is_digit) (Cat (Class is_digit) (Class is_digit))))
    (Cat (Class is_space)
    (Cat (Lit ''result='')
    (Cat (Grp (Cat (Opt (Lit ''-'')) (StarC is_alnum)))
         (Opt (Grp (Cat (Class is_space) (StarC not_newline)))))))"

definition StatusOK :: int where
  "StatusOK = 200"

text \<open>
  A loop \<open>for s.Scan() { ... }\<close> is written as its body, which says whether the loop
  goes on (\<open>Continue\<close>) or is left (\<open>Break\<close>) and with which state, and the loop that
  runs the body on the lines of a scanner.
\<close>

datatype 'a flow = Continue 'a | Break 'a

subsection \<open>NewWithEAGI\<close>

text \<open>The loop that reads the initial variables: its body on the line \<open>s.Text()\<close>.\<close>

definition variables_body ::
  "string \<Rightarrow> (string \<rightharpoonup> string) \<Rightarrow> (string \<rightharpoonup> string) flow" where
  "variables_body l vars =
     (if l = [] then Break vars
      else
        let terms = SplitN l '':'' 2
        in if length terms = 2
           then Continue (vars(TrimSpace (terms ! 0) \<mapsto> TrimSpace (terms ! 1)))
           else Continue vars)"

function read_variables ::
  "Scanner \<Rightarrow> (string \<rightharpoonup> string) \<Rightarrow> Scanner \<times> (string \<rightharpoonup> string)" where
  "read_variables s vars =
     (case Scan s of
        (None, s') \<Rightarrow> (s', vars)
      | (Some l, s') \<Rightarrow>
          (case variables_body l vars of
             Continue vars' \<Rightarrow> read_variables s' vars'
           | Break vars' \<Rightarrow> (s', vars')))"
  by pat_completeness auto

text \<open>
  The scanner is local to the function: the session keeps the reader as the scanner
  left it.
\<close>

definition NewWithEAGI :: "string list \<Rightarrow> Writer \<Rightarrow> string list option \<Rightarrow> AGI" where
  "NewWithEAGI rd wr eg =
     (let (s, vars) = read_variables (NewScanner rd) Map.empty
      in \<lparr>Variables = vars, r = sc_r s, eagi = eg, w = wr, conn = None\<rparr>)"

definition New :: "string list \<Rightarrow> Writer \<Rightarrow> AGI" where
  "New rd wr = NewWithEAGI rd wr None"

subsection \<open>Command\<close>

text \<open>
  The loop of the reading goroutine: its body on the line \<open>raw = s.Text()\<close>, and the
  loop, which passes on the scanner, the variable \<open>raw\<close> and the response.
\<close>

definition reply_body :: "string \<Rightarrow> Response \<Rightarrow> Response flow" where
  "reply_body raw resp =
     (if raw = [] then Break resp
      else if HasPrefix raw ''HANGUP'' then Continue resp
      else
        case FindStringSubmatch responseRegex raw of
          None \<Rightarrow> Break (resp\<lparr>Error := Some (ParseFailed raw)\<rparr>)
        | Some pieces \<Rightarrow>
            (case Atoi (pieces ! 1) of
               (st, Some e) \<Rightarrow>
                 Break (resp\<lparr>Status := st, Error := Some (StatusCodeFailed e raw)\<rparr>)
             | (st, None) \<Rightarrow>
                 (let resp1 = resp\<lparr>Status := st, ResultString := pieces ! 2\<rparr>;
                      (res, err) = Atoi (pieces ! 2);
                      resp2 = resp1\<lparr>Result := res\<rparr>;
                      resp3 = (case err of
                                 Some e \<Rightarrow> resp2\<lparr>Error := Some (ResultCodeFailed e raw)\<rparr>
                               | None \<Rightarrow> resp2);
                      wrappedVal = TrimSpace (pieces ! 3)
                  in Break
                       (resp3\<lparr>Value := TrimSuffix (TrimPrefix wrappedVal ''('') '')''\<rparr>))))"

function read_reply ::
  "Scanner \<Rightarrow> string \<Rightarrow> Response \<Rightarrow> Scanner \<times> string \<times> Response" where
  "read_reply s raw resp =
     (case Scan s of
        (None, s') \<Rightarrow> (s', raw, resp)
      | (Some l, s') \<Rightarrow>
          (case reply_body l resp of
             Continue resp' \<Rightarrow> read_reply s' l resp'
           | Break resp' \<Rightarrow> (s', l, resp')))"
  by pat_completeness auto

text \<open>
  Which case of the \<open>select\<close> is ready first when a positive timeout is given. When the
  timer fires, the reading goroutine is still waiting in \<open>Scan\<close> and has not written to
  the response: every write to the response is followed by the end of the loop without
  another read. What the abandoned goroutine reads later is not modelled.
\<close>

datatype race = ReaderDone | TimerFired

definition Response0 :: Response where
  "Response0 = \<lparr>Error = None, Status = 0, Result = 0, ResultString = [], Value = []\<rparr>"

text \<open>
  The scanner is made anew in each call and dropped at its end: the session keeps the
  reader as the scanner left it.
\<close>

definition Command :: "AGI \<Rightarrow> int \<Rightarrow> race \<Rightarrow> string list \<Rightarrow> Response \<times> AGI" where
  "Command a timeout sched cmd =
     (let resp = Response0;
          cmdString = Join cmd '' ''
      in case Write (w a) (cmdString @ [CHR 0x0A]) of
           (w', Some e) \<Rightarrow> (resp\<lparr>Error := Some (SendFailed e)\<rparr>, a\<lparr>w := w'\<rparr>)
         | (w', None) \<Rightarrow>
             if timeout > 0 \<and> sched = TimerFired
             then (resp\<lparr>Error := Some Timeout\<rparr>, a\<lparr>w := w'\<rparr>)
             else
               let (s, raw, resp') = read_reply (NewScanner (r a)) [] resp;
                   resp'' = (if Status resp' \<noteq> StatusOK \<and> Error resp' = None
                             then resp'\<lparr>Error := Some (Non200 raw)\<rparr>
                             else resp')
               in (resp'', a\<lparr>w := w', r := sc_r s\<rparr>))"

subsection \<open>Listen\<close>

text \<open>
  \<open>net.Listen\<close> is a parameter: given the network and the address it returns an error
  or a listener, which is modelled by the outcomes of its successive \<open>Accept\<close> calls
  (an error, or a connection: a handle, the data the peer sends and the writer). The
  result of \<open>Listen\<close> is the sessions handed to the handler and the error returned;
  \<open>None\<close> when \<open>Accept\<close> blocks for ever.
\<close>

type_synonym Conn = "nat \<times> string list \<times> Writer"

definition NewConn :: "Conn \<Rightarrow> AGI" where
  "NewConn c = (case c of (h, rd, wr) \<Rightarrow> (New rd wr)\<lparr>conn := Some h\<rparr>)"

fun accept_loop :: "(string + Conn) list \<Rightarrow> AGI list \<Rightarrow> AGI list \<times> string option" where
  "accept_loop [] hs = (hs, None)"
| "accept_loop (Inl e # cs) hs = (hs, Some (''failed to accept TCP connection: '' @ e))"
| "accept_loop (Inr c # cs) hs = accept_loop cs (hs @ [NewConn c])"

definition Listen ::
  "string \<Rightarrow> (string \<Rightarrow> string \<Rightarrow> string + (string + Conn) list)
     \<Rightarrow> AGI list \<times> string option" where
  "Listen addr0 net_Listen =
     (let addr = (if addr0 = [] then ''localhost:4573'' else addr0)
      in case net_Listen ''tcp'' addr of
           Inl e \<Rightarrow> ([], Some (''failed to bind server: '' @ e))
         | Inr l \<Rightarrow> accept_loop l [])"

section \<open>Notions used in the statements\<close>

subsection \<open>The reply grammar\<close>

text \<open>
  A relational reading of the patterns: \<open>matches re m c\<close> holds when \<open>re\<close> matches
  exactly the text \<open>m\<close> with the groups capturing \<open>c\<close>. It is used to reason about
  \<open>run\<close>, which computes.
\<close>

fun matches :: "regex \<Rightarrow> string \<Rightarrow> string option list \<Rightarrow> bool" where
  "matches (Class p) m c = (c = [] \<and> (\<exists>x. m = [x] \<and> p x))"
| "matches (Lit l) m c = (c = [] \<and> m = l)"
| "matches (Cat a b) m c =
     (\<exists>m1 m2 c1 c2. m = m1 @ m2 \<and> c = c1 @ c2 \<and> matches a m1 c1 \<and> matches b m2 c2)"
| "matches (Opt a) m c = (matches a m c \<or> (m = [] \<and> c = replicate (ngroups a) None))"
| "matches (StarC p) m c = (c = [] \<and> list_all p m)"
| "matches (Grp a) m c = (\<exists>c'. c = Some m # c' \<and> matches a m c')"

text \<open>
  The result token of a reply line, an optional \<open>-\<close> and alphanumeric characters, and
  what may follow it: nothing, or a white space character and any text free of line
  feeds.
\<close>

definition result_token :: "string \<Rightarrow> bool" where
  "result_token t = list_all is_alnum (if t \<noteq> [] \<and> hd t = CHR ''-'' then tl t else t)"

definition reply_tail :: "string \<Rightarrow> bool" where
  "reply_tail t = (t = [] \<or> (is_space (hd t) \<and> list_all not_newline (tl t)))"

subsection \<open>The lines of a reader\<close>

text \<open>
  \<open>scan_all s\<close> is the lines that a loop \<open>for s.Scan()\<close> gets from the scanner
  \<open>s\<close> when it runs to the end, \<open>Lines rd\<close> those that a new scanner on the reader
  \<open>rd\<close> yields, and \<open>skip_lines n s\<close> the scanner \<open>s\<close> after \<open>n\<close> calls of
  \<open>Scan\<close>. \<open>lines_reply\<close> is the loop of \<open>Command\<close>
  run on a list of lines. \<open>weight\<close> and \<open>work\<close> measure what is left to read and
  to hand out.
\<close>

function scan_all :: "Scanner \<Rightarrow> string list" where
  "scan_all s = (case Scan s of (None, s') \<Rightarrow> [] | (Some t, s') \<Rightarrow> t # scan_all s')"
  by pat_completeness auto

definition Lines :: "string list \<Rightarrow> string list" where
  "Lines rd = scan_all (NewScanner rd)"

fun skip_lines :: "nat \<Rightarrow> Scanner \<Rightarrow> Scanner" where
  "skip_lines 0 s = s"
| "skip_lines (Suc n) s = skip_lines n (snd (Scan s))"

fun lines_reply ::
  "string list \<Rightarrow> string \<Rightarrow> Response \<Rightarrow> string list \<times> string \<times> Response" where
  "lines_reply [] raw resp = ([], raw, resp)"
| "lines_reply (l # ls) raw resp =
     (case reply_body l resp of
        Continue resp' \<Rightarrow> lines_reply ls l resp'
      | Break resp' \<Rightarrow> (ls, l, resp'))"

definition weight :: "string list \<Rightarrow> nat" where
  "weight rd = sum_list (map length rd) + length rd"

definition work :: "Scanner \<Rightarrow> nat" where
  "work s = 2 * weight (sc_r s) + length (sc_data s) + (if sc_err s then 0 else 1)"

subsection \<open>The reply to a command\<close>

text \<open>
  The line that decides a command: the first line that does not begin with \<open>HANGUP\<close>.
  \<open>grammar_match\<close> says that there is one and that it matches the reply grammar;
  \<open>fully_parsed\<close> says moreover that its result token converts to an integer.
  \<open>parsed_reply l ps resp\<close> is the response after the line \<open>l\<close>, matched with the
  pieces \<open>ps\<close>, has been stored in \<open>resp\<close>.
\<close>

definition reply_line :: "string list \<Rightarrow> string option" where
  "reply_line ls = find (\<lambda>l. \<not> HasPrefix l ''HANGUP'') ls"



definition parsed_reply :: "string \<Rightarrow> string list \<Rightarrow> Response \<Rightarrow> Response" where
  "parsed_reply l ps resp =
     (let resp1 = resp\<lparr>Status := fst (Atoi (ps ! 1)), ResultString := ps ! 2,
                         Result := fst (Atoi (ps ! 2))\<rparr>;
          resp2 = (case snd (Atoi (ps ! 2)) of
                     Some e \<Rightarrow> resp1\<lparr>Error := Some (ResultCodeFailed e l)\<rparr>
                   | None \<Rightarrow> resp1)
      in resp2\<lparr>Value := TrimSuffix (TrimPrefix (TrimSpace (ps ! 3)) ''('') '')''\<rparr>)"

definition is_ParseFailed :: "agi_error option \<Rightarrow> bool" where
  "is_ParseFailed e = (case e of Some (ParseFailed x) \<Rightarrow> True | _ \<Rightarrow> False)"

subsection \<open>The handshake block, in the words of the specification\<close>

text \<open>
  The block is the lines up to the first empty line. A line with a colon is split at its
  first colon, and both halves are trimmed.
\<close>

definition handshake_block :: "string list \<Rightarrow> string list" where
  "handshake_block ls = takeWhile (\<lambda>l. l \<noteq> []) ls"

definition split_colon :: "string \<Rightarrow> string \<times> string" where
  "split_colon l =
     (takeWhile (\<lambda>c. c \<noteq> CHR '':'') l, tl (dropWhile (\<lambda>c. c \<noteq> CHR '':'') l))"

definition handshake_pairs :: "string list \<Rightarrow> (string \<times> string) list" where
  "handshake_pairs ls =
     map (\<lambda>l. (TrimSpace (fst (split_colon l)), TrimSpace (snd (split_colon l))))
       (filter (\<lambda>l. CHR '':'' \<in> set l) (handshake_block ls))"

subsection \<open>Sessions for the examples\<close>

definition ok_writer :: Writer where
  "ok_writer = \<lparr>fails = (\<lambda>b. None), sink = []\<rparr>"

definition broken_writer :: Writer where
  "broken_writer = \<lparr>fails = (\<lambda>b. Some ''broken pipe''), sink = []\<rparr>"

definition session :: "string list \<Rightarrow> Writer \<Rightarrow> AGI" where
  "session ls wr = \<lparr>Variables = Map.empty, r = ls, eagi = None, w = wr, conn = None\<rparr>"

text \<open>
  A network on which only the default address can be bound, and whose listener fails at
  the first \<open>Accept\<close>.
\<close>

definition test_net :: "string \<Rightarrow> string \<Rightarrow> string + (string + Conn) list" where
  "test_net network address =
     (if network = ''tcp'' \<and> address = ''localhost:4573''
      then Inr [Inl ''use of closed network connection'']
      else Inl ''address already in use'')"

section \<open>Properties of the library model\<close>

lemma run_StarC_iff:
  "(c, rest) \<in> set (run (StarC p) s) \<longleftrightarrow> c = [] \<and> (\<exists>m. s = m @ rest \<and> list_all p m)"
proof (induction s)
  case Nil
  show ?case by auto
next
  case (Cons x xs)
  show ?case
  proof (cases "p x")
    case True
    have "(\<exists>m. x # xs = m @ rest \<and> list_all p m) \<longleftrightarrow>
          rest = x # xs \<or> (\<exists>m. xs = m @ rest \<and> list_all p m)"
      using True by (auto simp: Cons_eq_append_conv)
    with True Cons show ?thesis by auto
  next
    case False
    have "(\<exists>m. x # xs = m @ rest \<and> list_all p m) \<longleftrightarrow> rest = x # xs"
      using False by (auto simp: Cons_eq_append_conv)
    with False show ?thesis by auto
  qed
qed

lemma run_Cat_iff:
  "(c, rest) \<in> set (run (Cat a b) s) \<longleftrightarrow>
     (\<exists>ca s1 cb. (ca, s1) \<in> set (run a s) \<and> (cb, rest) \<in> set (run b s1) \<and> c = ca @ cb)"
  by (auto; force)

lemma run_iff:
  "(c, rest) \<in> set (run re s) \<longleftrightarrow> (\<exists>m. s = m @ rest \<and> matches re m c)"
proof (induction re arbitrary: c rest s)
  case (Class p)
  show ?case by (cases s) auto
next
  case (Lit l)
  show ?case by (auto simp: prefix_def)
next
  case (Cat a b)
  show ?case
  proof
    assume "(c, rest) \<in> set (run (Cat a b) s)"
    then obtain ca s1 cb where
      a: "(ca, s1) \<in> set (run a s)" and b: "(cb, rest) \<in> set (run b s1)" and c: "c = ca @ cb"
      unfolding run_Cat_iff by blast
    from a obtain m1 where m1: "s = m1 @ s1" "matches a m1 ca"
      using Cat.IH(1) by blast
    from b obtain m2 where m2: "s1 = m2 @ rest" "matches b m2 cb"
      using Cat.IH(2) by blast
    have "s = (m1 @ m2) @ rest" using m1 m2 by simp
    moreover have "matches (Cat a b) (m1 @ m2) c"
      using m1 m2 c by auto
    ultimately show "\<exists>m. s = m @ rest \<and> matches (Cat a b) m c" by blast
  next
    assume "\<exists>m. s = m @ rest \<and> matches (Cat a b) m c"
    then obtain m1 m2 c1 c2 where
      s: "s = (m1 @ m2) @ rest" and c: "c = c1 @ c2"
      and a: "matches a m1 c1" and b: "matches b m2 c2"
      by auto
    have "(c1, m2 @ rest) \<in> set (run a s)"
      using Cat.IH(1) s a by auto
    moreover have "(c2, rest) \<in> set (run b (m2 @ rest))"
      using Cat.IH(2) b by blast
    ultimately show "(c, rest) \<in> set (run (Cat a b) s)"
      unfolding run_Cat_iff using c by blast
  qed
next
  case (Opt a)
  show ?case by (auto simp: Opt)
next
  case (StarC p)
  show ?case using run_StarC_iff [of c rest p s] by (auto simp del: run.simps)
next
  case (Grp a)
  show ?case
  proof
    assume "(c, rest) \<in> set (run (Grp a) s)"
    then obtain ca where ca: "(ca, rest) \<in> set (run a s)"
      and c: "c = Some (take (length s - length rest) s) # ca"
      by auto
    from ca obtain m where m: "s = m @ rest" "matches a m ca"
      using Grp.IH by blast
    then have "take (length s - length rest) s = m" by simp
    with c m show "\<exists>m. s = m @ rest \<and> matches (Grp a) m c" by auto
  next
    assume "\<exists>m. s = m @ rest \<and> matches (Grp a) m c"
    then obtain m c' where m: "s = m @ rest" "c = Some m # c'" "matches a m c'"
      by auto
    then have "(c', rest) \<in> set (run a s)"
      using Grp.IH by blast
    moreover have "take (length s - length rest) s = m" using m by simp
    ultimately show "(c, rest) \<in> set (run (Grp a) s)"
      using m(2) by force
  qed
qed

lemma find_full_Some:
  assumes "matches re s c" and "\<And>c'. matches re s c' \<Longrightarrow> c' = c"
  shows "find (\<lambda>(caps, rest). rest = []) (run re s) = Some (c, [])"
proof -
  have "(c, []) \<in> set (run re s)" using assms(1) by (simp add: run_iff)
  then obtain y where y: "find (\<lambda>(caps, rest). rest = []) (run re s) = Some y"
    by (cases "find (\<lambda>(caps, rest). rest = []) (run re s)") (auto simp: find_None_iff)
  then have "y \<in> set (run re s)" and "snd y = []"
    by (auto simp: find_Some_iff in_set_conv_nth)
  then have "(fst y, []) \<in> set (run re s)"
    by (metis prod.collapse)
  then have "matches re s (fst y)"
    by (simp add: run_iff)
  then have "fst y = c" by (rule assms(2))
  with \<open>snd y = []\<close> have "y = (c, [])" by (cases y) simp
  with y show ?thesis by simp
qed

lemma find_full_D:
  assumes "find (\<lambda>(caps, rest). rest = []) (run re s) = Some y"
  shows "snd y = [] \<and> matches re s (fst y)"
proof -
  from assms have "y \<in> set (run re s)" and "snd y = []"
    by (auto simp: find_Some_iff in_set_conv_nth)
  then have "(fst y, []) \<in> set (run re s)"
    by (metis prod.collapse)
  with \<open>snd y = []\<close> show ?thesis by (simp add: run_iff)
qed

lemma find_full_None:
  "find (\<lambda>(caps, rest). rest = []) (run re s) = None \<longleftrightarrow> (\<forall>c. \<not> matches re s c)"
  by (auto simp: find_None_iff run_iff)


lemma not_alnum_minus: "\<not> is_alnum CHR ''-''"
  by (simp add: is_alnum_def)

lemma space_not_alnum: "is_space c \<Longrightarrow> \<not> is_alnum c"
  by (auto simp: is_space_def is_alnum_def)

lemma space_not_minus: "is_space c \<Longrightarrow> c \<noteq> CHR ''-''"
  by (auto simp: is_space_def)

lemma matches_Cat_Class:
  "matches (Cat (Class p) b) m c \<longleftrightarrow> (\<exists>x m2. m = x # m2 \<and> p x \<and> matches b m2 c)"
proof
  assume "matches (Cat (Class p) b) m c"
  then show "\<exists>x m2. m = x # m2 \<and> p x \<and> matches b m2 c" by auto
next
  assume "\<exists>x m2. m = x # m2 \<and> p x \<and> matches b m2 c"
  then obtain x m2 where "m = [x] @ m2" "p x" "matches b m2 c" by auto
  then have "m = [x] @ m2 \<and> c = [] @ c \<and> matches (Class p) [x] [] \<and> matches b m2 c"
    by simp
  then show "matches (Cat (Class p) b) m c"
    unfolding matches.simps(3) by blast
qed

lemma matches_Cat_Lit:
  "matches (Cat (Lit l) b) m c \<longleftrightarrow> (\<exists>m2. m = l @ m2 \<and> matches b m2 c)"
  by auto

lemma matches_Cat_Opt_Lit:
  "matches (Cat (Opt (Lit l)) b) m c \<longleftrightarrow>
     (\<exists>m2. m = l @ m2 \<and> matches b m2 c) \<or> matches b m c"
proof
  assume "matches (Cat (Opt (Lit l)) b) m c"
  then show "(\<exists>m2. m = l @ m2 \<and> matches b m2 c) \<or> matches b m c" by auto
next
  assume "(\<exists>m2. m = l @ m2 \<and> matches b m2 c) \<or> matches b m c"
  then show "matches (Cat (Opt (Lit l)) b) m c"
  proof
    assume "\<exists>m2. m = l @ m2 \<and> matches b m2 c"
    then obtain m2 where "m = l @ m2 \<and> c = [] @ c \<and> matches (Opt (Lit l)) l [] \<and> matches b m2 c"
      by auto
    then show ?thesis unfolding matches.simps(3) by blast
  next
    assume "matches b m c"
    then have "m = [] @ m \<and> c = [] @ c \<and> matches (Opt (Lit l)) [] [] \<and> matches b m c"
      by simp
    then show ?thesis unfolding matches.simps(3) by blast
  qed
qed

lemma matches_tail:
  "matches (Opt (Grp (Cat (Class is_space) (StarC not_newline)))) m c \<longleftrightarrow>
     reply_tail m \<and> c = [if m = [] then None else Some m]"
  unfolding matches.simps(4) matches.simps(6) matches_Cat_Class
  by (cases m) (auto simp: reply_tail_def)

lemma matches_Cat_Grp:
  "matches (Cat (Grp a) b) m c \<longleftrightarrow>
     (\<exists>m1 m2 c1 c2. m = m1 @ m2 \<and> c = Some m1 # c1 @ c2 \<and> matches a m1 c1 \<and> matches b m2 c2)"
proof
  assume "matches (Cat (Grp a) b) m c"
  then obtain m1 m2 c1 c2 where "m = m1 @ m2" "c = c1 @ c2" "matches (Grp a) m1 c1" "matches b m2 c2"
    unfolding matches.simps(3) by blast
  moreover from this obtain c' where "c1 = Some m1 # c'" "matches a m1 c'"
    unfolding matches.simps(6) by blast
  ultimately show "\<exists>m1 m2 c1 c2. m = m1 @ m2 \<and> c = Some m1 # c1 @ c2 \<and> matches a m1 c1 \<and> matches b m2 c2"
    by auto
next
  assume "\<exists>m1 m2 c1 c2. m = m1 @ m2 \<and> c = Some m1 # c1 @ c2 \<and> matches a m1 c1 \<and> matches b m2 c2"
  then obtain m1 m2 c1 c2 where
    *: "m = m1 @ m2" "c = Some m1 # c1 @ c2" "matches a m1 c1" "matches b m2 c2"
    by blast
  then have "matches (Grp a) m1 (Some m1 # c1)" by simp
  with * have "m = m1 @ m2 \<and> c = (Some m1 # c1) @ c2 \<and> matches (Grp a) m1 (Some m1 # c1) \<and> matches b m2 c2"
    by simp
  then show "matches (Cat (Grp a) b) m c"
    unfolding matches.simps(3) by blast
qed

lemma matches_digits3:
  "matches (Cat (Class is_digit) (Cat (Class is_digit) (Class is_digit))) m c \<longleftrightarrow>
     (\<exists>d1 d2 d3. m = [d1, d2, d3] \<and> is_digit d1 \<and> is_digit d2 \<and> is_digit d3 \<and> c = [])"
  unfolding matches_Cat_Class by auto

lemma matches_sign_alnum:
  "matches (Cat (Opt (Lit ''-'')) (StarC is_alnum)) m c \<longleftrightarrow> result_token m \<and> c = []"
  unfolding matches_Cat_Opt_Lit
  by (cases m) (auto simp: result_token_def not_alnum_minus)

lemma matches_responseRegex:
  "matches responseRegex s c \<longleftrightarrow>
     (\<exists>d1 d2 d3 sp tok suf.
        s = d1 # d2 # d3 # sp # ''result='' @ tok @ suf \<and>
        is_digit d1 \<and> is_digit d2 \<and> is_digit d3 \<and> is_space sp \<and> result_token tok \<and> reply_tail suf \<and>
        c = [Some [d1, d2, d3], Some tok, if suf = [] then None else Some suf])"
  (is "?L \<longleftrightarrow> ?R")
proof
  assume ?L
  then obtain m1 m2 c1 c2 where 1: "s = m1 @ m2" "c = Some m1 # c1 @ c2"
    "matches (Cat (Class is_digit) (Cat (Class is_digit) (Class is_digit))) m1 c1"
    and 2: "matches (Cat (Class is_space) (Cat (Lit ''result='')
       (Cat (Grp (Cat (Opt (Lit ''-'')) (StarC is_alnum)))
         (Opt (Grp (Cat (Class is_space) (StarC not_newline))))))) m2 c2"
    unfolding responseRegex_def matches_Cat_Grp by blast
  from 1(3) obtain d1 d2 d3 where d: "m1 = [d1, d2, d3]" "is_digit d1" "is_digit d2" "is_digit d3" "c1 = []"
    unfolding matches_digits3 by blast
  from 2 obtain sp m3 where 3: "m2 = sp # ''result='' @ m3" "is_space sp"
    and 4: "matches (Cat (Grp (Cat (Opt (Lit ''-'')) (StarC is_alnum)))
         (Opt (Grp (Cat (Class is_space) (StarC not_newline))))) m3 c2"
    unfolding matches_Cat_Class matches_Cat_Lit by blast
  from 4 obtain tok suf c3 c4 where 5: "m3 = tok @ suf" "c2 = Some tok # c3 @ c4"
    "matches (Cat (Opt (Lit ''-'')) (StarC is_alnum)) tok c3"
    "matches (Opt (Grp (Cat (Class is_space) (StarC not_newline)))) suf c4"
    unfolding matches_Cat_Grp by blast
  from 5(3) have 6: "result_token tok" "c3 = []" unfolding matches_sign_alnum by simp_all
  from 5(4) have 7: "reply_tail suf" "c4 = [if suf = [] then None else Some suf]"
    unfolding matches_tail by simp_all
  have "s = d1 # d2 # d3 # sp # ''result='' @ tok @ suf"
    using 1(1) d(1) 3(1) 5(1) by simp
  moreover have "c = [Some [d1, d2, d3], Some tok, if suf = [] then None else Some suf]"
    using 1(2) d(1,5) 5(2) 6(2) 7(2) by simp
  ultimately show ?R using d(2-4) 3(2) 6(1) 7(1) by blast
next
  assume ?R
  then obtain d1 d2 d3 sp tok suf where
    s: "s = d1 # d2 # d3 # sp # ''result='' @ tok @ suf" and
    p: "is_digit d1" "is_digit d2" "is_digit d3" "is_space sp" "result_token tok" "reply_tail suf" and
    c: "c = [Some [d1, d2, d3], Some tok, if suf = [] then None else Some suf]"
    by blast
  have t: "matches (Opt (Grp (Cat (Class is_space) (StarC not_newline)))) suf
             [if suf = [] then None else Some suf]"
    unfolding matches_tail using p(6) by simp
  have k: "matches (Cat (Opt (Lit ''-'')) (StarC is_alnum)) tok []"
    unfolding matches_sign_alnum using p(5) by simp
  have "matches (Cat (Grp (Cat (Opt (Lit ''-'')) (StarC is_alnum)))
         (Opt (Grp (Cat (Class is_space) (StarC not_newline))))) (tok @ suf)
         (Some tok # [] @ [if suf = [] then None else Some suf])"
    unfolding matches_Cat_Grp using k t by blast
  then have "matches (Cat (Class is_space) (Cat (Lit ''result='')
       (Cat (Grp (Cat (Opt (Lit ''-'')) (StarC is_alnum)))
         (Opt (Grp (Cat (Class is_space) (StarC not_newline)))))))
       (sp # ''result='' @ tok @ suf) [Some tok, if suf = [] then None else Some suf]"
    unfolding matches_Cat_Class matches_Cat_Lit using p(4) by simp
  moreover have "matches (Cat (Class is_digit) (Cat (Class is_digit) (Class is_digit))) [d1, d2, d3] []"
    unfolding matches_digits3 using p(1-3) by simp
  ultimately have "matches responseRegex ([d1, d2, d3] @ sp # ''result='' @ tok @ suf)
     (Some [d1, d2, d3] # [] @ [Some tok, if suf = [] then None else Some suf])"
    unfolding responseRegex_def matches_Cat_Grp by blast
  then show ?L using s c by simp
qed


lemma token_chars: "result_token t \<Longrightarrow> x \<in> set t \<Longrightarrow> x = CHR ''-'' \<or> is_alnum x"
  by (cases t) (auto simp: result_token_def list_all_iff split: if_splits)

lemma tail_hd: "reply_tail t \<Longrightarrow> t \<noteq> [] \<Longrightarrow> is_space (hd t)"
  by (simp add: reply_tail_def)

lemma token_tail_overlap:
  assumes "result_token t" and "reply_tail l" and "t = t' @ us" and "l = us @ l'"
  shows "us = []"
proof (rule ccontr)
  assume "us \<noteq> []"
  then have "hd us \<in> set t" and "l \<noteq> []" and "hd l = hd us"
    using assms(3,4) by auto
  then have "hd us = CHR ''-'' \<or> is_alnum (hd us)" and "is_space (hd us)"
    using token_chars [OF assms(1)] tail_hd [OF assms(2)] by auto
  then show False
    using space_not_alnum space_not_minus by blast
qed

lemma token_tail_unique:
  assumes "result_token t1" and "result_token t2" and "reply_tail l1" and "reply_tail l2"
    and "t1 @ l1 = t2 @ l2"
  shows "t1 = t2 \<and> l1 = l2"
proof -
  from assms(5) obtain us where
    "(t1 = t2 @ us \<and> us @ l1 = l2) \<or> (t1 @ us = t2 \<and> l1 = us @ l2)"
    by (auto simp: append_eq_append_conv2)
  then show ?thesis
  proof
    assume "t1 = t2 @ us \<and> us @ l1 = l2"
    then have "us = []"
      using token_tail_overlap [OF assms(1) assms(4), of t2 us l1] by simp
    with \<open>t1 = t2 @ us \<and> us @ l1 = l2\<close> show ?thesis by simp
  next
    assume "t1 @ us = t2 \<and> l1 = us @ l2"
    then have "us = []"
      using token_tail_overlap [OF assms(2) assms(3), of t1 us l2] by simp
    with \<open>t1 @ us = t2 \<and> l1 = us @ l2\<close> show ?thesis by simp
  qed
qed

lemma FindStringSubmatch_responseRegex_intro:
  assumes "is_digit d1" "is_digit d2" "is_digit d3" "is_space sp" "result_token tok" "reply_tail suf"
    and s: "s = d1 # d2 # d3 # sp # ''result='' @ tok @ suf"
  shows "FindStringSubmatch responseRegex s = Some [s, [d1, d2, d3], tok, suf]"
proof -
  let ?c = "[Some [d1, d2, d3], Some tok, if suf = [] then None else Some suf]"
  have m: "matches responseRegex s ?c"
    unfolding matches_responseRegex using assms by blast
  have u: "c' = ?c" if "matches responseRegex s c'" for c'
  proof -
    from that obtain e1 e2 e3 sp' tok' suf' where
      s': "s = e1 # e2 # e3 # sp' # ''result='' @ tok' @ suf'" and
      p': "result_token tok'" "reply_tail suf'" and
      c': "c' = [Some [e1, e2, e3], Some tok', if suf' = [] then None else Some suf']"
      unfolding matches_responseRegex by blast
    from s s' have e: "e1 = d1" "e2 = d2" "e3 = d3" and "tok' @ suf' = tok @ suf" by simp_all
    then have "tok' = tok \<and> suf' = suf"
      using token_tail_unique [OF p'(1) assms(5) p'(2) assms(6)] by simp
    with e c' show ?thesis by simp
  qed
  have "find (\<lambda>(caps, rest). rest = []) (run responseRegex s) = Some (?c, [])"
    using m u by (rule find_full_Some)
  then show ?thesis by (simp add: FindStringSubmatch_def)
qed

lemma FindStringSubmatch_responseRegex_elim:
  assumes "FindStringSubmatch responseRegex s = Some ps"
  shows "\<exists>d1 d2 d3 sp tok suf.
           s = d1 # d2 # d3 # sp # ''result='' @ tok @ suf \<and>
           is_digit d1 \<and> is_digit d2 \<and> is_digit d3 \<and> is_space sp \<and> result_token tok \<and> reply_tail suf \<and>
           ps = [s, [d1, d2, d3], tok, suf]"
proof -
  from assms obtain y where
    y: "find (\<lambda>(caps, rest). rest = []) (run responseRegex s) = Some y"
    and ps: "ps = s # map (\<lambda>c. case c of None \<Rightarrow> [] | Some m \<Rightarrow> m) (fst y)"
    by (auto simp: FindStringSubmatch_def split: option.splits)
  from find_full_D [OF y] have "matches responseRegex s (fst y)" by simp
  then obtain d1 d2 d3 sp tok suf where
    *: "s = d1 # d2 # d3 # sp # ''result='' @ tok @ suf"
    "is_digit d1" "is_digit d2" "is_digit d3" "is_space sp" "result_token tok" "reply_tail suf"
    "fst y = [Some [d1, d2, d3], Some tok, if suf = [] then None else Some suf]"
    unfolding matches_responseRegex by blast
  from ps *(8) have "ps = [s, [d1, d2, d3], tok, suf]" by simp
  with * show ?thesis by blast
qed

lemma FindStringSubmatch_responseRegex_None:
  "FindStringSubmatch responseRegex s = None \<longleftrightarrow> (\<forall>c. \<not> matches responseRegex s c)"
  using find_full_None [of responseRegex s]
  by (auto simp: FindStringSubmatch_def split: option.splits)

lemma is_digit_not_sign: "is_digit d \<Longrightarrow> d \<noteq> CHR ''-'' \<and> d \<noteq> CHR ''+''"
  by (auto simp: is_digit_def)

lemma digit_val_range: "is_digit d \<Longrightarrow> 0 \<le> digit_val d \<and> digit_val d \<le> 9"
  by (auto simp: is_digit_def digit_val_def Let_def)

lemma Atoi_3digits:
  assumes "is_digit d1" "is_digit d2" "is_digit d3"
  shows "Atoi [d1, d2, d3] = (100 * digit_val d1 + 10 * digit_val d2 + digit_val d3, None)"
proof -
  note r = digit_val_range [OF assms(1)] digit_val_range [OF assms(2)] digit_val_range [OF assms(3)]
  have "ParseUint [d1, d2, d3] = (100 * digit_val d1 + 10 * digit_val d2 + digit_val d3, None)"
    using assms r by (simp add: ParseUint_def)
  then show ?thesis
    using is_digit_not_sign [OF assms(1)] r by (simp add: Atoi_def intSize_def)
qed

lemma ParseUint_loop_err:
  "ParseUint_loop s n = (v, Some e) \<Longrightarrow> (e = ErrSyntax \<and> v = 0) \<or> (e = ErrRange \<and> v = 2 ^ 64 - 1)"
  by (induction s n rule: ParseUint_loop.induct) (auto split: if_splits)

lemma Atoi_syntax_value: "Atoi s = (v, Some ErrSyntax) \<Longrightarrow> v = 0"
  by (auto simp: Atoi_def Let_def split: if_splits prod.splits option.splits NumError.splits)

lemma Atoi_range_value:
  "Atoi s = (v, Some ErrRange) \<Longrightarrow> v = (if hd s = CHR ''-'' then - (2 ^ 63) else 2 ^ 63 - 1)"
  by (auto simp: Atoi_def Let_def intSize_def split: if_splits prod.splits option.splits NumError.splits)

section \<open>Properties of the scanner\<close>

lemma Read_weight:
  "Read rd n = (bs, e, rd') \<Longrightarrow> weight rd' + length bs \<le> weight rd"
  by (cases rd) (auto simp: weight_def split: if_splits)

lemma fill_weight:
  "fill rd n loop = (bs, e, rd') \<Longrightarrow>
     weight rd' + length bs \<le> weight rd \<and> (\<not> e \<longrightarrow> bs \<noteq> [])"
proof (induction rd n loop rule: fill.induct)
  case (1 rd n loop)
  obtain bs1 e1 rd1 where r: "Read rd n = (bs1, e1, rd1)" by (cases "Read rd n") auto
  note w = Read_weight [OF r]
  show ?case
  proof (cases "e1 \<or> bs1 \<noteq> [] \<or> loop + 1 > maxConsecutiveEmptyReads")
    case True
    with "1.prems" r w show ?thesis
      by (subst (asm) fill.simps) (auto split: if_splits)
  next
    case False
    with "1.prems" r have "fill rd1 n (loop + 1) = (bs, e, rd')"
      by (subst (asm) fill.simps) (auto split: if_splits)
    with "1.IH" [OF r [symmetric] refl] False have
      "weight rd' + length bs \<le> weight rd1 \<and> (\<not> e \<longrightarrow> bs \<noteq> [])" by auto
    with w False show ?thesis by auto
  qed
qed

lemma read_input_work:
  assumes "\<not> sc_err s"
  shows "work (read_input s) < work s"
proof -
  obtain bs e rd' where
    f: "fill (sc_r s) (sc_buf s - (sc_start s + int (length (sc_data s)))) 0 = (bs, e, rd')"
    by (cases "fill (sc_r s) (sc_buf s - (sc_start s + int (length (sc_data s)))) 0") auto
  from fill_weight [OF f] have w: "weight rd' + length bs \<le> weight (sc_r s)"
    and b: "\<not> e \<Longrightarrow> 0 < length bs" by auto
  show ?thesis
  proof (cases e)
    case True
    with w assms show ?thesis by (simp add: read_input_def f work_def)
  next
    case False
    with b have "0 < length bs" by simp
    with w have "2 * weight rd' + length bs < 2 * weight (sc_r s)" by arith
    with False assms show ?thesis by (simp add: read_input_def f work_def)
  qed
qed

lemma length_takeWhile_neq:
  "x \<in> set d \<Longrightarrow> length (takeWhile (\<lambda>c. c \<noteq> x) d) < length d"
  by (induction d) auto

lemma ScanLines_None: "ScanLines d e = (adv, None) \<Longrightarrow> adv = 0"
  by (auto simp: ScanLines_def Let_def split: if_splits)

lemma ScanLines_Some: "ScanLines d e = (adv, Some t) \<Longrightarrow> 0 < adv \<and> adv \<le> length d"
  using length_takeWhile_neq [of "CHR 0x0A" d]
  by (auto simp: ScanLines_def Let_def Suc_le_eq split: if_splits)

lemma take_token_None: "take_token s = (None, s1) \<Longrightarrow> s1 = s"
  by (auto simp: take_token_def dest: ScanLines_None split: if_splits prod.splits)

lemma take_token_Some: "take_token s = (Some t, s1) \<Longrightarrow> work s1 < work s"
  by (auto simp: take_token_def work_def dest!: ScanLines_Some split: if_splits prod.splits)

lemma make_room_work:
  "sc_err (make_room s) \<or> (work (make_room s) = work s \<and> \<not> sc_err s)"
  by (auto simp: make_room_def work_def Let_def split: if_splits)

termination Scan
proof (relation "measure work")
  show "wf (measure work)" by simp
next
  fix s x s1 s2
  assume "(x, s1) = take_token s" "x = None" "\<not> sc_err s1" "s2 = make_room s1" "\<not> sc_err s2"
  then have "s1 = s" using take_token_None [of s s1] by simp
  with \<open>s2 = make_room s1\<close> \<open>\<not> sc_err s2\<close> have "work s2 = work s"
    using make_room_work [of s] by auto
  with \<open>\<not> sc_err s2\<close> show "(read_input s2, s) \<in> measure work"
    using read_input_work [of s2] by simp
qed

declare Scan.simps [simp del]

lemma Scan_work: "Scan s = (Some t, s') \<Longrightarrow> work s' < work s"
proof (induction s rule: Scan.induct)
  case (1 s)
  obtain x s1 where tt: "take_token s = (x, s1)" by (cases "take_token s") auto
  show ?case
  proof (cases x)
    case (Some u)
    with tt "1.prems" take_token_Some [of s u s1] show ?thesis
      by (subst (asm) Scan.simps) simp
  next
    case None
    with tt have s1: "s1 = s" using take_token_None by simp
    from "1.prems" tt None have
      e: "\<not> sc_err s1" and m: "\<not> sc_err (make_room s1)"
      and r: "Scan (read_input (make_room s1)) = (Some t, s')"
      by (subst (asm) Scan.simps, auto simp: Let_def split: if_splits)+
    from "1.IH" [OF tt [symmetric] None e refl m r]
    have "work s' < work (read_input (make_room s1))" .
    moreover have "work (read_input (make_room s1)) < work s"
      using make_room_work [of s1] read_input_work [of "make_room s1"] m s1 by auto
    ultimately show ?thesis by simp
  qed
qed

termination scan_all
proof (relation "measure work")
  show "wf (measure work)" by simp
next
  fix s x s' t
  assume "(x, s') = Scan s" "x = Some t"
  then show "(s', s) \<in> measure work" using Scan_work [of s t s'] by simp
qed

declare scan_all.simps [simp del]

termination read_variables
proof (relation "measure (\<lambda>(s, vars). work s)")
  show "wf (measure (\<lambda>(s, vars). work s))" by simp
next
  fix s :: Scanner and vars vars' :: "string \<rightharpoonup> string" and x s' l
  assume "(x, s') = Scan s" "x = Some l"
  then show "((s', vars'), (s, vars)) \<in> measure (\<lambda>(s, vars). work s)"
    using Scan_work [of s l s'] by simp
qed

declare read_variables.simps [simp del]

termination read_reply
proof (relation "measure (\<lambda>(s, raw, resp). work s)")
  show "wf (measure (\<lambda>(s, raw, resp). work s))" by simp
next
  fix s :: Scanner and raw :: string and resp resp' :: Response and x s' l
  assume "(x, s') = Scan s" "x = Some l"
  then show "((s', l, resp'), (s, raw, resp)) \<in> measure (\<lambda>(s, raw, resp). work s)"
    using Scan_work [of s l s'] by simp
qed

declare read_reply.simps [simp del]

lemma scan_all_None: "Scan s = (None, s') \<Longrightarrow> scan_all s = []"
  by (subst scan_all.simps) simp

lemma scan_all_Some: "Scan s = (Some l, s') \<Longrightarrow> scan_all s = l # scan_all s'"
  by (subst scan_all.simps) simp

lemma scan_all_Cons:
  assumes "scan_all s = l # ls"
  shows "Scan s = (Some l, snd (Scan s)) \<and> scan_all (snd (Scan s)) = ls"
proof (cases "Scan s")
  case (Pair x s')
  show ?thesis
  proof (cases x)
    case None
    with Pair assms scan_all_None show ?thesis by fastforce
  next
    case (Some t)
    with Pair assms scan_all_Some [of s t s'] show ?thesis by simp
  qed
qed

lemma scan_all_Nil: "scan_all s = [] \<Longrightarrow> fst (Scan s) = None"
  by (cases "Scan s"; cases "fst (Scan s)") (auto dest: scan_all_Some)

lemma scan_all_skip_lines:
  "n \<le> length (scan_all s) \<Longrightarrow> scan_all (skip_lines n s) = drop n (scan_all s)"
proof (induction n arbitrary: s)
  case 0
  show ?case by simp
next
  case (Suc n)
  then obtain l ls where c: "scan_all s = l # ls" by (cases "scan_all s") auto
  from scan_all_Cons [OF c] Suc.prems c Suc.IH [of "snd (Scan s)"] show ?case by simp
qed

text \<open>The loops of the package act on a scanner as they act on its lines.\<close>

lemma read_reply_lines:
  "snd (read_reply s raw resp) = snd (lines_reply (scan_all s) raw resp)"
proof (induction s raw resp rule: read_reply.induct)
  case (1 s raw resp)
  obtain x s' where sc: "Scan s = (x, s')" by (cases "Scan s") auto
  show ?case
  proof (cases x)
    case None
    with sc scan_all_None [of s s'] show ?thesis
      by (subst read_reply.simps) simp
  next
    case (Some l)
    with sc have a: "scan_all s = l # scan_all s'" by (simp add: scan_all_Some)
    show ?thesis
    proof (cases "reply_body l resp")
      case (Continue resp')
      with "1.IH" [OF sc [symmetric] Some Continue] sc Some a show ?thesis
        by (subst read_reply.simps) simp
    next
      case (Break resp')
      with sc Some a show ?thesis
        by (subst read_reply.simps) simp
    qed
  qed
qed


section \<open>Properties of the reading loop\<close>

lemma digit_not_H: "is_digit d \<Longrightarrow> d \<noteq> CHR ''H''"
  by (auto simp: is_digit_def)

lemma match_not_skipped:
  assumes "FindStringSubmatch responseRegex l = Some ps"
  shows "l \<noteq> [] \<and> \<not> HasPrefix l ''HANGUP'' \<and> snd (Atoi (ps ! 1)) = None"
proof -
  from FindStringSubmatch_responseRegex_elim [OF assms] obtain d1 d2 d3 sp tok suf where
    *: "l = d1 # d2 # d3 # sp # ''result='' @ tok @ suf"
    "is_digit d1" "is_digit d2" "is_digit d3" "ps = [l, [d1, d2, d3], tok, suf]"
    by blast
  have "snd (Atoi (ps ! 1)) = None"
    using Atoi_3digits [OF *(2-4)] *(5) by simp
  moreover have "\<not> HasPrefix l ''HANGUP''"
    using *(1) digit_not_H [OF *(2)] by (simp add: HasPrefix_def)
  ultimately show ?thesis using *(1) by simp
qed

lemma reply_body_match:
  assumes "FindStringSubmatch responseRegex l = Some ps"
  shows "reply_body l resp = Break (parsed_reply l ps resp)"
proof -
  from match_not_skipped [OF assms] have
    "l \<noteq> []" "\<not> HasPrefix l ''HANGUP''" "snd (Atoi (ps ! 1)) = None" by simp_all
  then show ?thesis
    using assms
    by (cases "Atoi (ps ! 1)"; cases "Atoi (ps ! 2)")
       (simp add: reply_body_def parsed_reply_def Let_def split: option.splits)
qed

lemma reply_body_HANGUP: "HasPrefix h ''HANGUP'' \<Longrightarrow> reply_body h resp = Continue resp"
  by (auto simp: reply_body_def HasPrefix_def)



lemma lines_reply_match:
  assumes "FindStringSubmatch responseRegex l = Some ps"
  shows "lines_reply (l # ls) raw resp = (ls, l, parsed_reply l ps resp)"
  by (simp add: reply_body_match [OF assms])

lemma lines_reply_skip:
  "\<forall>h\<in>set hs. HasPrefix h ''HANGUP'' \<Longrightarrow> ls \<noteq> [] \<Longrightarrow>
     lines_reply (hs @ ls) raw resp = lines_reply ls raw' resp"
proof (induction hs arbitrary: raw)
  case Nil
  then show ?case by (cases ls) (simp_all split: flow.splits)
next
  case (Cons h hs)
  then show ?case by (simp add: reply_body_HANGUP)
qed




lemma reply_line_None: "reply_line ls = None \<longleftrightarrow> (\<forall>l\<in>set ls. HasPrefix l ''HANGUP'')"
  by (auto simp: reply_line_def find_None_iff)


text \<open>
  \<open>Command\<close> when the command has been written and the reading goroutine finishes:
  the response comes from the lines of the reader, and the reader is left as the scanner
  of the call left it.
\<close>

lemma Command_reader:
  assumes "fails (w a) (Join cmd '' '' @ [CHR 0x0A]) = None"
    and "timeout \<le> 0 \<or> sched = ReaderDone"
    and "lines_reply (Lines (r a)) [] Response0 = (rest, raw, resp)"
  shows "fst (Command a timeout sched cmd) =
           (if Status resp \<noteq> StatusOK \<and> Error resp = None
            then resp\<lparr>Error := Some (Non200 raw)\<rparr> else resp)"
proof -
  obtain s raw' resp' where rr: "read_reply (NewScanner (r a)) [] Response0 = (s, raw', resp')"
    by (cases "read_reply (NewScanner (r a)) [] Response0") auto
  from read_reply_lines [of "NewScanner (r a)" "[]" Response0] rr assms(3)
  have "raw' = raw" "resp' = resp" by (simp_all add: Lines_def)
  with rr assms(1,2) show ?thesis
    by (auto simp: Command_def Write_def Let_def)
qed



section \<open>Properties of trimming and splitting\<close>

lemma strip_none: "find (\<lambda>x. x \<noteq> [] \<and> prefix x s) ws = None \<Longrightarrow> strip ws s = s"
  by (subst strip.simps) simp

lemma strip_some:
  "find (\<lambda>x. x \<noteq> [] \<and> prefix x s) ws = Some x \<Longrightarrow> strip ws s = strip ws (drop (length x) s)"
  by (subst strip.simps) simp

lemma TrimLeftSpace_paren: "TrimLeftSpace (CHR ''('' # s) = CHR ''('' # s"
  unfolding TrimLeftSpace_def by (rule strip_none) (simp add: white_space_def)

lemma TrimLeftSpace_space: "is_space sp \<Longrightarrow> TrimLeftSpace (sp # s) = TrimLeftSpace s"
  unfolding TrimLeftSpace_def is_space_def
  by (elim disjE) (simp_all add: strip_some [where x = "[sp]"] white_space_def)

lemma TrimRightSpace_paren: "TrimRightSpace (s @ '')'') = s @ '')''"
proof -
  have "strip (map rev white_space) (CHR '')'' # rev s) = CHR '')'' # rev s"
    by (rule strip_none) (simp add: white_space_def)
  then show ?thesis by (simp add: TrimRightSpace_def)
qed

lemma Value_parens:
  assumes "is_space sp"
  shows "TrimSuffix (TrimPrefix (TrimSpace (sp # ''('' @ v @ '')'')) ''('') '')'' = v"
proof -
  have "TrimLeftSpace (sp # ''('' @ v @ '')'') = (CHR ''('' # v) @ '')''"
    using TrimLeftSpace_space [OF assms] TrimLeftSpace_paren by simp
  then have "TrimSpace (sp # ''('' @ v @ '')'') = CHR ''('' # v @ '')''"
    unfolding TrimSpace_def using TrimRightSpace_paren [of "CHR ''('' # v"] by simp
  then show ?thesis by (simp add: TrimPrefix_def TrimSuffix_def)
qed

lemma Index_colon:
  "Index l '':'' =
     (if CHR '':'' \<in> set l then Some (length (takeWhile (\<lambda>c. c \<noteq> CHR '':'') l)) else None)"
  by (induction l) auto

lemma SplitN_colon:
  "SplitN l '':'' 2 =
     (if CHR '':'' \<in> set l then [fst (split_colon l), snd (split_colon l)] else [l])"
proof -
  have "take (length (takeWhile P l)) l = takeWhile P l" for P :: "char \<Rightarrow> bool"
    by (simp add: takeWhile_eq_take [symmetric])
  moreover have "drop (Suc (length (takeWhile P l))) l = tl (dropWhile P l)" for P :: "char \<Rightarrow> bool"
    by (simp add: dropWhile_eq_drop drop_Suc tl_drop)
  ultimately show ?thesis
    by (simp add: numeral_2_eq_2 Index_colon split_colon_def)
qed

lemma handshake_pairs_Cons:
  "handshake_pairs (l # ls) =
     (if l = [] then []
      else if CHR '':'' \<in> set l
        then (TrimSpace (fst (split_colon l)), TrimSpace (snd (split_colon l))) # handshake_pairs ls
        else handshake_pairs ls)"
  by (simp add: handshake_pairs_def handshake_block_def)

lemma variables_body_Continue:
  "l \<noteq> [] \<Longrightarrow>
     variables_body l vars =
       Continue (if CHR '':'' \<in> set l
                 then vars(TrimSpace (fst (split_colon l)) \<mapsto> TrimSpace (snd (split_colon l)))
                 else vars)"
  by (simp add: variables_body_def SplitN_colon Let_def del: SplitN.simps)

lemma read_variables_spec:
  "read_variables s vars =
     (skip_lines (Suc (length (handshake_block (scan_all s)))) s,
      vars ++ map_of (rev (handshake_pairs (scan_all s))))"
proof (induction s vars rule: read_variables.induct)
  case (1 s vars)
  obtain x s' where sc: "Scan s = (x, s')" by (cases "Scan s") auto
  show ?case
  proof (cases x)
    case None
    with sc scan_all_None [of s s'] show ?thesis
      by (subst read_variables.simps) (simp add: handshake_block_def handshake_pairs_def)
  next
    case (Some l)
    with sc have a: "scan_all s = l # scan_all s'" by (simp add: scan_all_Some)
    show ?thesis
    proof (cases "l = []")
      case True
      with sc Some a show ?thesis
        by (subst read_variables.simps)
           (simp add: variables_body_def handshake_block_def handshake_pairs_def)
    next
      case False
      let ?vars = "if CHR '':'' \<in> set l
                 then vars(TrimSpace (fst (split_colon l)) \<mapsto> TrimSpace (snd (split_colon l)))
                 else vars"
      have b: "handshake_block (l # scan_all s') = l # handshake_block (scan_all s')"
        using False by (simp add: handshake_block_def)
      have v: "variables_body l vars = Continue ?vars"
        using False by (rule variables_body_Continue)
      have m: "?vars ++ map_of (rev (handshake_pairs (scan_all s'))) =
                 vars ++ map_of (rev (handshake_pairs (l # scan_all s')))"
        using False
        by (auto simp: handshake_pairs_Cons map_add_def fun_eq_iff split: option.splits)
      from "1.IH" [OF sc [symmetric] Some v] have
        "read_variables s' ?vars =
           (skip_lines (Suc (length (handshake_block (scan_all s')))) s',
            ?vars ++ map_of (rev (handshake_pairs (scan_all s'))))" .
      with sc Some v a b m show ?thesis
        by (subst read_variables.simps) simp
    qed
  qed
qed

section \<open>The claims\<close>

subsection \<open>C1: when the error is nil\<close>




subsection \<open>C2: a result token that is not an integer\<close>

text \<open>
  C2, as the code has it. When the command has been written and the reading goroutine
  finishes, and the first line of the reader matches the grammar with a result token
  that \<open>strconv.Atoi\<close> rejects, then \<open>ResultString\<close> is the token verbatim and
  \<open>Error\<close> is set, to the error of a failed conversion of the result code with the
  error that \<open>Atoi\<close> reports. \<open>Result\<close> is what \<open>Atoi\<close> returns with that error:
  zero with a syntax error, and with a range error the largest 64-bit integer, or the
  smallest when the token begins with \<open>-\<close>. (\<open>Atoi\<close> reports a syntax error for
  \<open>on\<close>, and a range error for \<open>99999999999999999999\<close> and also for
  \<open>99999999999999999999x\<close>, where the digits leave the range before the \<open>x\<close> is
  met.)
\<close>

theorem Command_result_not_integer:
  assumes "fails (w a) (Join cmd '' '' @ [CHR 0x0A]) = None"
    and "timeout \<le> 0 \<or> sched = ReaderDone"
    and "Lines (r a) = l # ls"
    and "FindStringSubmatch responseRegex l = Some ps"
    and "snd (Atoi (ps ! 2)) = Some e"
  shows "ResultString (fst (Command a timeout sched cmd)) = ps ! 2
         \<and> Error (fst (Command a timeout sched cmd)) = Some (ResultCodeFailed e l)
         \<and> Result (fst (Command a timeout sched cmd)) =
             (case e of
                ErrSyntax \<Rightarrow> 0
              | ErrRange \<Rightarrow> if hd (ps ! 2) = CHR ''-'' then - (2 ^ 63) else 2 ^ 63 - 1)"
proof -
  have 1: "lines_reply (Lines (r a)) [] Response0 = (ls, l, parsed_reply l ps Response0)"
    using lines_reply_match [OF assms(4)] assms(3) by simp
  have v: "fst (Atoi (ps ! 2)) =
             (case e of
                ErrSyntax \<Rightarrow> 0
              | ErrRange \<Rightarrow> if hd (ps ! 2) = CHR ''-'' then - (2 ^ 63) else 2 ^ 63 - 1)"
    using assms(5) Atoi_syntax_value [of "ps ! 2" "fst (Atoi (ps ! 2))"]
      Atoi_range_value [of "ps ! 2" "fst (Atoi (ps ! 2))"]
    by (cases "Atoi (ps ! 2)"; cases e) simp_all
  show ?thesis
    unfolding Command_reader [OF assms(1,2) 1]
    using assms(5) v by (simp add: parsed_reply_def Response0_def Let_def)
qed

theorem Command_result_not_integer_witness:
  "FindStringSubmatch responseRegex ''200 result=on''
     = Some [''200 result=on'', ''200'', ''on'', []]
   \<and> snd (Atoi ''on'') = Some ErrSyntax
   \<and> ResultString (fst (Command (session [''200 result=on\<newline>200 result=0\<newline>''] ok_writer)
        0 ReaderDone [''ANSWER''])) = ''on''
   \<and> Error (fst (Command (session [''200 result=on\<newline>200 result=0\<newline>''] ok_writer)
        0 ReaderDone [''ANSWER''])) = Some (ResultCodeFailed ErrSyntax ''200 result=on'')
   \<and> Result (fst (Command (session [''200 result=on\<newline>200 result=0\<newline>''] ok_writer)
        0 ReaderDone [''ANSWER''])) = 0
   \<and> snd (Atoi ''99999999999999999999x'') = Some ErrRange
   \<and> Error (fst (Command (session [''200 result=99999999999999999999x\<newline>''] ok_writer)
        0 ReaderDone [''ANSWER'']))
       = Some (ResultCodeFailed ErrRange ''200 result=99999999999999999999x'')
   \<and> Result (fst (Command (session [''200 result=99999999999999999999x\<newline>''] ok_writer)
        0 ReaderDone [''ANSWER''])) = 9223372036854775807"
proof -
  let ?a = "session [''200 result=on\<newline>200 result=0\<newline>''] ok_writer"
  let ?ps = "[''200 result=on'', ''200'', ''on'', []]"
  let ?b = "session [''200 result=99999999999999999999x\<newline>''] ok_writer"
  let ?qs = "[''200 result=99999999999999999999x'', ''200'', ''99999999999999999999x'', []]"
  have 1: "fails (w (session ls ok_writer)) (Join [''ANSWER''] '' '' @ [CHR 0x0A]) = None" for ls
    by (simp add: session_def ok_writer_def)
  have 2: "(0::int) \<le> 0 \<or> ReaderDone = ReaderDone" by simp
  have 3: "Lines (r ?a) = ''200 result=on'' # [''200 result=0'']" by code_simp
  have 4: "FindStringSubmatch responseRegex ''200 result=on'' = Some ?ps" by code_simp
  have 5: "snd (Atoi (?ps ! 2)) = Some ErrSyntax" by code_simp
  have 6: "snd (Atoi ''on'') = Some ErrSyntax" by code_simp
  have 7: "Lines (r ?b) = ''200 result=99999999999999999999x'' # []" by code_simp
  have 8: "FindStringSubmatch responseRegex ''200 result=99999999999999999999x'' = Some ?qs"
    by code_simp
  have 9: "snd (Atoi (?qs ! 2)) = Some ErrRange" by code_simp
  have 10: "snd (Atoi ''99999999999999999999x'') = Some ErrRange" by code_simp
  from Command_result_not_integer [OF 1 2 3 4 5] Command_result_not_integer [OF 1 2 7 8 9]
    4 6 10
  show ?thesis by simp
qed

text \<open>
  The claim as stated fails on \<open>200 result=on\<close>, where the error is not nil, and on
  \<open>200 result=99999999999999999999\<close>, where moreover the result is not zero.
\<close>

theorem Command_result_not_integer_counterexample:
  "FindStringSubmatch responseRegex ''200 result=on''
     = Some [''200 result=on'', ''200'', ''on'', []]
   \<and> snd (Atoi ''on'') \<noteq> None
   \<and> Error (fst (Command (session [''200 result=on\<newline>''] ok_writer) 0 ReaderDone
        [''ANSWER''])) \<noteq> None
   \<and> FindStringSubmatch responseRegex ''200 result=99999999999999999999''
     = Some [''200 result=99999999999999999999'', ''200'', ''99999999999999999999'', []]
   \<and> snd (Atoi ''99999999999999999999'') \<noteq> None
   \<and> Result (fst (Command (session [''200 result=99999999999999999999\<newline>''] ok_writer)
        0 ReaderDone [''ANSWER''])) \<noteq> 0"
  by code_simp

subsection \<open>C3: HANGUP lines\<close>

text \<open>
  C3. When the command has been written and the reading goroutine finishes, and the lines
  of the reader are lines beginning with \<open>HANGUP\<close> followed by a line that matches
  the reply grammar, the \<open>HANGUP\<close> lines are skipped: the response is the one that a
  reader beginning with the reply line gives, its error is not a parse error, and its
  fields are those parsed from the reply line.
\<close>

theorem Command_skips_HANGUP:
  assumes "fails (w a) (Join cmd '' '' @ [CHR 0x0A]) = None"
    and "timeout \<le> 0 \<or> sched = ReaderDone"
    and "Lines (r a) = hs @ l # ls" and "\<forall>h\<in>set hs. HasPrefix h ''HANGUP''"
    and "FindStringSubmatch responseRegex l = Some ps"
  shows "(Lines rd = l # ls' \<longrightarrow>
            fst (Command a timeout sched cmd) = fst (Command (a\<lparr>r := rd\<rparr>) timeout sched cmd))
         \<and> \<not> is_ParseFailed (Error (fst (Command a timeout sched cmd)))
         \<and> Status (fst (Command a timeout sched cmd)) = fst (Atoi (ps ! 1))
         \<and> ResultString (fst (Command a timeout sched cmd)) = ps ! 2
         \<and> Result (fst (Command a timeout sched cmd)) = fst (Atoi (ps ! 2))
         \<and> Value (fst (Command a timeout sched cmd))
             = TrimSuffix (TrimPrefix (TrimSpace (ps ! 3)) ''('') '')''"
proof -
  have 1: "lines_reply (Lines (r a)) [] Response0 = (ls, l, parsed_reply l ps Response0)"
    using lines_reply_skip [OF assms(4), where ls = "l # ls" and raw = "[]" and raw' = "[]"
        and resp = Response0]
      lines_reply_match [OF assms(5)] assms(3) by simp
  have 3: "fails (w (a\<lparr>r := rd\<rparr>)) (Join cmd '' '' @ [CHR 0x0A]) = None"
    using assms(1) by simp
  have e: "fst (Command a timeout sched cmd) = fst (Command (a\<lparr>r := rd\<rparr>) timeout sched cmd)"
    if "Lines rd = l # ls'"
  proof -
    have 2: "lines_reply (Lines (r (a\<lparr>r := rd\<rparr>))) [] Response0
               = (ls', l, parsed_reply l ps Response0)"
      using lines_reply_match [OF assms(5)] that by simp
    show ?thesis
      unfolding Command_reader [OF assms(1,2) 1] Command_reader [OF 3 assms(2) 2] by simp
  qed
  show ?thesis
    using e unfolding Command_reader [OF assms(1,2) 1]
    by (simp add: parsed_reply_def Response0_def is_ParseFailed_def Let_def split: option.splits)
qed

theorem Command_skips_HANGUP_witness:
  "HasPrefix ''HANGUP'' ''HANGUP''
   \<and> Lines [''HANGUP\<newline>'', ''200 result=1 (avail)\<newline>'']
       = [''HANGUP''] @ ''200 result=1 (avail)'' # []
   \<and> FindStringSubmatch responseRegex ''200 result=1 (avail)''
       = Some [''200 result=1 (avail)'', ''200'', ''1'', '' (avail)'']
   \<and> fst (Command (session [''HANGUP\<newline>'', ''200 result=1 (avail)\<newline>''] ok_writer)
          0 ReaderDone [''CHANNEL STATUS''])
     = fst (Command (session [''200 result=1 (avail)\<newline>''] ok_writer)
          0 ReaderDone [''CHANNEL STATUS''])
   \<and> fst (Command (session [''HANGUP\<newline>'', ''200 result=1 (avail)\<newline>''] ok_writer)
          0 ReaderDone [''CHANNEL STATUS''])
     = \<lparr>Error = None, Status = 200, Result = 1, ResultString = ''1'', Value = ''avail''\<rparr>"
proof -
  let ?a = "session [''HANGUP\<newline>'', ''200 result=1 (avail)\<newline>''] ok_writer"
  let ?ps = "[''200 result=1 (avail)'', ''200'', ''1'', '' (avail)'']"
  have 1: "fails (w ?a) (Join [''CHANNEL STATUS''] '' '' @ [CHR 0x0A]) = None"
    by (simp add: session_def ok_writer_def)
  have 2: "(0::int) \<le> 0 \<or> ReaderDone = ReaderDone" by simp
  have 3: "Lines (r ?a) = [''HANGUP''] @ ''200 result=1 (avail)'' # []"
    by code_simp
  have 4: "\<forall>h\<in>set [''HANGUP'']. HasPrefix h ''HANGUP''" by (simp add: HasPrefix_def)
  have 5: "FindStringSubmatch responseRegex ''200 result=1 (avail)'' = Some ?ps"
    by code_simp
  have 6: "?a\<lparr>r := [''200 result=1 (avail)\<newline>'']\<rparr>
             = session [''200 result=1 (avail)\<newline>''] ok_writer"
    by (simp add: session_def)
  have 7: "Lines [''200 result=1 (avail)\<newline>''] = ''200 result=1 (avail)'' # []"
    by code_simp
  have 8: "Lines [''HANGUP\<newline>'', ''200 result=1 (avail)\<newline>'']
       = [''HANGUP''] @ ''200 result=1 (avail)'' # []"
    by code_simp
  have 9: "\<lparr>Error = None, Status = fst (Atoi (?ps ! 1)), Result = fst (Atoi (?ps ! 2)),
            ResultString = ?ps ! 2,
            Value = TrimSuffix (TrimPrefix (TrimSpace (?ps ! 3)) ''('') '')''\<rparr>
          = \<lparr>Error = None, Status = 200, Result = 1, ResultString = ''1'', Value = ''avail''\<rparr>"
    by code_simp
  have 10: "Error (fst (Command ?a 0 ReaderDone [''CHANNEL STATUS''])) = None"
    by code_simp
  note t = Command_skips_HANGUP [OF 1 2 3 4 5, of "[''200 result=1 (avail)\<newline>'']" "[]"]
  from t 7 6 have
    "fst (Command ?a 0 ReaderDone [''CHANNEL STATUS''])
       = fst (Command (session [''200 result=1 (avail)\<newline>''] ok_writer)
           0 ReaderDone [''CHANNEL STATUS''])"
    by simp
  moreover from t 9 10 have
    "fst (Command ?a 0 ReaderDone [''CHANNEL STATUS''])
       = \<lparr>Error = None, Status = 200, Result = 1, ResultString = ''1'', Value = ''avail''\<rparr>"
    by (cases "fst (Command ?a 0 ReaderDone [''CHANNEL STATUS''])") simp
  ultimately show ?thesis using 5 8 by (simp add: HasPrefix_def)
qed

subsection \<open>C4: a malformed line\<close>




subsection \<open>C5: the handshake\<close>

text \<open>
  C5. The variables of a new session are those of the handshake block, the lines of the
  reader up to the first empty line: each line with a colon, split at its first colon and
  both halves trimmed, gives an entry; the keys of the mapping are exactly the keys of
  these lines; a key that occurs again later takes the later value; lines without a colon
  give nothing. \<open>Scan\<close> is called once for each line of the block and once more: the
  session keeps the reader as these calls left it, and when an empty line ends the block,
  the scanner has then handed out the block and the empty line, and no line after it.
\<close>

theorem NewWithEAGI_variables:
  "Variables (NewWithEAGI rd wr eg) = map_of (rev (handshake_pairs (Lines rd)))
   \<and> dom (Variables (NewWithEAGI rd wr eg)) = fst ` set (handshake_pairs (Lines rd))
   \<and> (handshake_pairs (Lines rd) = ps1 @ (k, v) # ps2 \<and> k \<notin> fst ` set ps2 \<longrightarrow>
        Variables (NewWithEAGI rd wr eg) k = Some v)
   \<and> r (NewWithEAGI rd wr eg) =
       sc_r (skip_lines (Suc (length (handshake_block (Lines rd)))) (NewScanner rd))
   \<and> (length (handshake_block (Lines rd)) < length (Lines rd) \<longrightarrow>
        scan_all (skip_lines (Suc (length (handshake_block (Lines rd)))) (NewScanner rd)) =
          drop (Suc (length (handshake_block (Lines rd)))) (Lines rd))"
proof -
  have v: "Variables (NewWithEAGI rd wr eg) = map_of (rev (handshake_pairs (Lines rd)))"
    and rr: "r (NewWithEAGI rd wr eg) =
       sc_r (skip_lines (Suc (length (handshake_block (Lines rd)))) (NewScanner rd))"
    by (simp_all add: NewWithEAGI_def read_variables_spec Lines_def)
  have d: "dom (map_of (rev (handshake_pairs (Lines rd)))) = fst ` set (handshake_pairs (Lines rd))"
    by (simp add: dom_map_of_conv_image_fst)
  have l: "map_of (rev (ps1 @ (k, v) # ps2)) k = Some v" if "k \<notin> fst ` set ps2"
  proof -
    have "map_of (rev ps2) k = None" using that by (simp add: map_of_eq_None_iff)
    then show ?thesis by (simp add: map_add_def)
  qed
  have s: "scan_all (skip_lines (Suc (length (handshake_block (Lines rd)))) (NewScanner rd)) =
          drop (Suc (length (handshake_block (Lines rd)))) (Lines rd)"
    if "length (handshake_block (Lines rd)) < length (Lines rd)"
    using that scan_all_skip_lines [of "Suc (length (handshake_block (Lines rd)))" "NewScanner rd"]
    by (simp add: Lines_def)
  show ?thesis using v rr d l s by auto
qed

theorem NewWithEAGI_variables_witness:
  "Lines [''agi_channel: SI'', ''P/1\<newline>junk\<newline>'', ''k : v1\<newline>k: v2 \<newline>\<newline>'', ''200 result=1\<newline>'']
     = [''agi_channel: SIP/1'', ''junk'', ''k : v1'', ''k: v2 '', [], ''200 result=1'']
   \<and> handshake_pairs
       [''agi_channel: SIP/1'', ''junk'', ''k : v1'', ''k: v2 '', [], ''200 result=1'']
     = [(''agi_channel'', ''SIP/1''), (''k'', ''v1'')] @ (''k'', ''v2'') # []
   \<and> Variables (NewWithEAGI
        [''agi_channel: SI'', ''P/1\<newline>junk\<newline>'', ''k : v1\<newline>k: v2 \<newline>\<newline>'', ''200 result=1\<newline>'']
        ok_writer None) ''k'' = Some ''v2''
   \<and> dom (Variables (NewWithEAGI
        [''agi_channel: SI'', ''P/1\<newline>junk\<newline>'', ''k : v1\<newline>k: v2 \<newline>\<newline>'', ''200 result=1\<newline>'']
        ok_writer None)) = {''agi_channel'', ''k''}
   \<and> r (NewWithEAGI
        [''agi_channel: SI'', ''P/1\<newline>junk\<newline>'', ''k : v1\<newline>k: v2 \<newline>\<newline>'', ''200 result=1\<newline>'']
        ok_writer None) = [''200 result=1\<newline>'']
   \<and> scan_all (skip_lines
        (Suc (length [''agi_channel: SIP/1'', ''junk'', ''k : v1'', ''k: v2 '']))
        (NewScanner
          [''agi_channel: SI'', ''P/1\<newline>junk\<newline>'', ''k : v1\<newline>k: v2 \<newline>\<newline>'', ''200 result=1\<newline>'']))
       = [''200 result=1'']
   \<and> r (NewWithEAGI [''k: v\<newline>\<newline>200 result=1\<newline>''] ok_writer None) = []"
proof -
  let ?rd = "[''agi_channel: SI'', ''P/1\<newline>junk\<newline>'', ''k : v1\<newline>k: v2 \<newline>\<newline>'', ''200 result=1\<newline>'']"
  let ?ls = "[''agi_channel: SIP/1'', ''junk'', ''k : v1'', ''k: v2 '', [], ''200 result=1'']"
  have 0: "Lines ?rd = ?ls" by code_simp
  have 1: "handshake_pairs ?ls = [(''agi_channel'', ''SIP/1''), (''k'', ''v1'')] @ (''k'', ''v2'') # []"
    by code_simp
  have 2: "''k'' \<notin> fst ` set ([] :: (string \<times> string) list)" by simp
  have 3: "handshake_block ?ls = [''agi_channel: SIP/1'', ''junk'', ''k : v1'', ''k: v2 '']"
    by code_simp
  have 4: "sc_r (skip_lines
        (Suc (length [''agi_channel: SIP/1'', ''junk'', ''k : v1'', ''k: v2 '']))
        (NewScanner ?rd)) = [''200 result=1\<newline>'']"
    by code_simp
  have 5: "r (NewWithEAGI [''k: v\<newline>\<newline>200 result=1\<newline>''] ok_writer None) = []"
    by code_simp
  note t = NewWithEAGI_variables [of ?rd ok_writer None
      "[(''agi_channel'', ''SIP/1''), (''k'', ''v1'')]" "''k''" "''v2''" "[]", unfolded 0 3]
  from t 1 2 have "Variables (NewWithEAGI ?rd ok_writer None) ''k'' = Some ''v2''"
    by simp
  moreover from t 1 have
    "dom (Variables (NewWithEAGI ?rd ok_writer None)) = {''agi_channel'', ''k''}"
    by auto
  moreover from t 4 have "r (NewWithEAGI ?rd ok_writer None) = [''200 result=1\<newline>'']"
    by simp
  moreover from t have "scan_all (skip_lines
        (Suc (length [''agi_channel: SIP/1'', ''junk'', ''k : v1'', ''k: v2 '']))
        (NewScanner ?rd)) = [''200 result=1'']"
    by simp
  ultimately show ?thesis using 0 1 5 by simp
qed

subsection \<open>C6: a failed write\<close>

text \<open>
  C6. When the write of the command to the output stream fails, \<open>Command\<close> returns at
  once: the response has only \<open>Error\<close> set, to the error of a failed send, \<open>Status\<close>,
  \<open>Result\<close>, \<open>ResultString\<close> and \<open>Value\<close> keep their zero values, and nothing is
  read from the input stream (the session, and so its reader, is as before).
\<close>

theorem Command_write_failure:
  assumes "fails (w a) (Join cmd '' '' @ [CHR 0x0A]) = Some e"
  shows "Command a timeout sched cmd =
           (\<lparr>Error = Some (SendFailed e), Status = 0, Result = 0, ResultString = [], Value = []\<rparr>, a)
         \<and> r (snd (Command a timeout sched cmd)) = r a"
  using assms by (simp add: Command_def Write_def Response0_def)

theorem Command_write_failure_witness:
  "fails (w (session [''200 result=0\<newline>''] broken_writer)) (Join [''ANSWER''] '' '' @ [CHR 0x0A])
     = Some ''broken pipe''
   \<and> fst (Command (session [''200 result=0\<newline>''] broken_writer) 0 ReaderDone [''ANSWER''])
     = \<lparr>Error = Some (SendFailed ''broken pipe''), Status = 0, Result = 0,
        ResultString = [], Value = []\<rparr>
   \<and> r (snd (Command (session [''200 result=0\<newline>''] broken_writer) 0 ReaderDone [''ANSWER'']))
     = [''200 result=0\<newline>'']"
  using Command_write_failure [of "session [''200 result=0\<newline>''] broken_writer" "[''ANSWER'']"
      "''broken pipe''" 0 ReaderDone]
  by (simp add: session_def broken_writer_def)

subsection \<open>C7: the value in parentheses\<close>

text \<open>
  C7. When the command has been written and the reading goroutine finishes, the reply
  line \<open>200 result=1 (avail)\<close> gives status 200, result 1, result string \<open>1\<close> and
  value \<open>avail\<close>. In general a reply line made of three digits, a white space
  character, \<open>result=\<close>, a result token, a white space character and a text in
  parentheses gives that text, without the parentheses, as the value, the token as the
  result string, and the number of the three digits as the status.
\<close>

theorem Command_reply_value:
  assumes "fails (w a) (Join cmd '' '' @ [CHR 0x0A]) = None"
    and "timeout \<le> 0 \<or> sched = ReaderDone"
  shows "(Lines (r a) = ''200 result=1 (avail)'' # ls \<longrightarrow>
            fst (Command a timeout sched cmd) =
              \<lparr>Error = None, Status = 200, Result = 1, ResultString = ''1'', Value = ''avail''\<rparr>)
         \<and> (is_digit d1 \<and> is_digit d2 \<and> is_digit d3 \<and> is_space sp \<and> result_token tok \<and>
            is_space sp' \<and> list_all not_newline v \<and>
            Lines (r a) = (d1 # d2 # d3 # sp # ''result='' @ tok @ sp' # ''('' @ v @ '')'') # ls \<longrightarrow>
            Value (fst (Command a timeout sched cmd)) = v
            \<and> ResultString (fst (Command a timeout sched cmd)) = tok
            \<and> Result (fst (Command a timeout sched cmd)) = fst (Atoi tok)
            \<and> Status (fst (Command a timeout sched cmd)) =
                100 * digit_val d1 + 10 * digit_val d2 + digit_val d3)"
proof (intro conjI impI)
  assume ra: "Lines (r a) = ''200 result=1 (avail)'' # ls"
  have m: "FindStringSubmatch responseRegex ''200 result=1 (avail)''
             = Some [''200 result=1 (avail)'', ''200'', ''1'', '' (avail)'']"
    by code_simp
  have p: "parsed_reply ''200 result=1 (avail)''
             [''200 result=1 (avail)'', ''200'', ''1'', '' (avail)''] Response0
           = \<lparr>Error = None, Status = 200, Result = 1, ResultString = ''1'', Value = ''avail''\<rparr>"
    by code_simp
  have "lines_reply (Lines (r a)) [] Response0 = (ls, ''200 result=1 (avail)'',
          \<lparr>Error = None, Status = 200, Result = 1, ResultString = ''1'', Value = ''avail''\<rparr>)"
    using lines_reply_match [OF m] ra p by simp
  from Command_reader [OF assms this]
  show "fst (Command a timeout sched cmd) =
          \<lparr>Error = None, Status = 200, Result = 1, ResultString = ''1'', Value = ''avail''\<rparr>"
    by (simp add: StatusOK_def)
next
  assume h: "is_digit d1 \<and> is_digit d2 \<and> is_digit d3 \<and> is_space sp \<and> result_token tok \<and>
            is_space sp' \<and> list_all not_newline v \<and>
            Lines (r a) = (d1 # d2 # d3 # sp # ''result='' @ tok @ sp' # ''('' @ v @ '')'') # ls"
  let ?l = "d1 # d2 # d3 # sp # ''result='' @ tok @ sp' # ''('' @ v @ '')''"
  let ?ps = "[?l, [d1, d2, d3], tok, sp' # ''('' @ v @ '')'']"
  have t: "reply_tail (sp' # ''('' @ v @ '')'')"
    using h by (simp add: reply_tail_def not_newline_def)
  have m: "FindStringSubmatch responseRegex ?l = Some ?ps"
    using h t by (intro FindStringSubmatch_responseRegex_intro) simp_all
  have "lines_reply (Lines (r a)) [] Response0 = (ls, ?l, parsed_reply ?l ?ps Response0)"
    using lines_reply_match [OF m] h by simp
  note c = Command_reader [OF assms this]
  have s: "fst (Atoi [d1, d2, d3]) = 100 * digit_val d1 + 10 * digit_val d2 + digit_val d3"
    using Atoi_3digits [of d1 d2 d3] h by simp
  have val: "TrimSuffix (TrimPrefix (TrimSpace (sp' # ''('' @ v @ '')'')) ''('') '')'' = v"
    using Value_parens [of sp' v] h by simp
  show "Value (fst (Command a timeout sched cmd)) = v"
    unfolding c using val by (simp add: parsed_reply_def Let_def split: option.splits)
  show "ResultString (fst (Command a timeout sched cmd)) = tok"
    unfolding c by (simp add: parsed_reply_def Let_def split: option.splits)
  show "Result (fst (Command a timeout sched cmd)) = fst (Atoi tok)"
    unfolding c by (simp add: parsed_reply_def Let_def split: option.splits)
  show "Status (fst (Command a timeout sched cmd)) =
          100 * digit_val d1 + 10 * digit_val d2 + digit_val d3"
    unfolding c using s by (simp add: parsed_reply_def Let_def split: option.splits)
qed

theorem Command_reply_value_witness:
  "fst (Command (session [''200 result=1 (avail)\<newline>''] ok_writer) 0 ReaderDone
        [''CHANNEL STATUS''])
     = \<lparr>Error = None, Status = 200, Result = 1, ResultString = ''1'', Value = ''avail''\<rparr>
   \<and> Value (fst (Command (session [''511 result=-1 (dead channel)\<newline>''] ok_writer)
        0 ReaderDone [''CHANNEL STATUS''])) = ''dead channel''
   \<and> ResultString (fst (Command (session [''511 result=-1 (dead channel)\<newline>''] ok_writer)
        0 ReaderDone [''CHANNEL STATUS''])) = ''-1''
   \<and> Result (fst (Command (session [''511 result=-1 (dead channel)\<newline>''] ok_writer)
        0 ReaderDone [''CHANNEL STATUS''])) = - 1
   \<and> Status (fst (Command (session [''511 result=-1 (dead channel)\<newline>''] ok_writer)
        0 ReaderDone [''CHANNEL STATUS''])) = 511"
proof -
  have 1: "fails (w (session ls ok_writer)) (Join [''CHANNEL STATUS''] '' '' @ [CHR 0x0A]) = None"
    for ls by (simp add: session_def ok_writer_def)
  have 2: "(0::int) \<le> 0 \<or> ReaderDone = ReaderDone" by simp
  have 3: "Lines (r (session [''200 result=1 (avail)\<newline>''] ok_writer))
             = ''200 result=1 (avail)'' # []"
    by code_simp
  have l: "Lines (r (session [''511 result=-1 (dead channel)\<newline>''] ok_writer)) =
             [''511 result=-1 (dead channel)'']"
    by code_simp
  have 4: "is_digit CHR ''5'' \<and> is_digit CHR ''1'' \<and> is_digit CHR ''1'' \<and> is_space CHR '' '' \<and>
           result_token ''-1'' \<and> is_space CHR '' '' \<and> list_all not_newline ''dead channel'' \<and>
           Lines (r (session [''511 result=-1 (dead channel)\<newline>''] ok_writer)) =
             (CHR ''5'' # CHR ''1'' # CHR ''1'' # CHR '' '' # ''result='' @ ''-1'' @
                CHR '' '' # ''('' @ ''dead channel'' @ '')'') # []"
    unfolding l
    by (simp add: is_digit_def is_space_def result_token_def is_alnum_def not_newline_def)
  have 5: "fst (Atoi ''-1'') = - 1" by code_simp
  have 6: "100 * digit_val CHR ''5'' + 10 * digit_val CHR ''1'' + digit_val CHR ''1'' = 511"
    by (simp add: digit_val_def)
  from Command_reply_value [OF 1 2, THEN conjunct1, of "[''200 result=1 (avail)\<newline>'']" "[]"] 3
    Command_reply_value [OF 1 2, THEN conjunct2, rule_format, OF 4] 5 6
  show ?thesis by simp
qed

subsection \<open>C8: the default address\<close>

text \<open>
  C8. \<open>Listen\<close> with an empty address calls \<open>net.Listen\<close> at the address
  \<open>localhost:4573\<close>, and \<open>Listen\<close> with an address that is not empty calls it at
  that address: whatever \<open>net.Listen\<close> answers elsewhere, a refusal at that address is
  the bind error that \<open>Listen\<close> returns, and a listener at that address is the one
  whose connections \<open>Listen\<close> accepts.
\<close>

theorem Listen_default_address:
  "(net_Listen ''tcp'' ''localhost:4573'' = Inl e \<longrightarrow>
      Listen [] net_Listen = ([], Some (''failed to bind server: '' @ e)))
   \<and> (net_Listen ''tcp'' ''localhost:4573'' = Inr l \<longrightarrow>
      Listen [] net_Listen = accept_loop l [])
   \<and> (addr \<noteq> [] \<and> net_Listen ''tcp'' addr = Inl e \<longrightarrow>
      Listen addr net_Listen = ([], Some (''failed to bind server: '' @ e)))
   \<and> (addr \<noteq> [] \<and> net_Listen ''tcp'' addr = Inr l \<longrightarrow>
      Listen addr net_Listen = accept_loop l [])"
  by (simp add: Listen_def)

theorem Listen_default_address_witness:
  "test_net ''tcp'' ''localhost:4573'' = Inr [Inl ''use of closed network connection'']
   \<and> Listen [] test_net
       = ([], Some ''failed to accept TCP connection: use of closed network connection'')
   \<and> Listen ''localhost:4573'' test_net
       = ([], Some ''failed to accept TCP connection: use of closed network connection'')
   \<and> '':8080'' \<noteq> []
   \<and> test_net ''tcp'' '':8080'' = Inl ''address already in use''
   \<and> Listen '':8080'' test_net = ([], Some ''failed to bind server: address already in use'')"
proof -
  have 1: "test_net ''tcp'' ''localhost:4573'' = Inr [Inl ''use of closed network connection'']"
    by (simp add: test_net_def)
  have 2: "test_net ''tcp'' '':8080'' = Inl ''address already in use''"
    by (simp add: test_net_def)
  have 3: "accept_loop [Inl ''use of closed network connection''] []
             = ([], Some ''failed to accept TCP connection: use of closed network connection'')"
    by simp
  from Listen_default_address [of test_net "''address already in use''"
      "[Inl ''use of closed network connection'']" "'':8080''"]
    Listen_default_address [of test_net "''address already in use''"
      "[Inl ''use of closed network connection'']" "''localhost:4573''"] 1 2 3
  show ?thesis by simp
qed

subsection \<open>C10: no reply\<close>




end
